theory Spec2Isabelle
  imports Main "HOL-Library.Word" "HOL-Library.Sublist"
begin

section \<open>Data model of the binlog file reader\<close>

text \<open>
  The development embeds \<^verbatim>\<open>binlogfile2sql_util.py\<close>: the class
  \<^verbatim>\<open>BinLogFileReader\<close> with its constructor, \<^verbatim>\<open>_allowed_event_list\<close>,
  \<^verbatim>\<open>__connect_to_stream\<close>, \<^verbatim>\<open>fetchone\<close>, \<^verbatim>\<open>__iter__\<close> and
  \<^verbatim>\<open>__get_table_information\<close>.  The source is Python 3 (it uses annotations and
  \<^verbatim>\<open>open(..., encoding=...)\<close>), so comparing an int with \<^verbatim>\<open>None\<close> raises
  \<^verbatim>\<open>TypeError\<close>.
\<close>

type_synonym byte = "8 word"

text \<open>The fourteen event classes the source imports from the replication library.\<close>

datatype event_class =
    QueryEvent | RotateEvent | StopEvent | FormatDescriptionEvent
  | XidEvent | GtidEvent | BeginLoadQueryEvent | ExecuteLoadQueryEvent
  | UpdateRowsEvent | WriteRowsEvent | DeleteRowsEvent | TableMapEvent
  | HeartbeatLogEvent | NotImplementedEvent

text \<open>
  Exceptions as values.  \<open>BadMagicBytesError\<close> and \<open>EventSizeTooSmallError\<close> are the two
  classes the source declares; \<open>StructError\<close> is \<^verbatim>\<open>struct.error\<close>; \<open>ValueError\<close> is
  what a buffered file raises for a read count below -1; \<open>LibraryError\<close> is
  anything the library's packet decoder raises; \<open>OperationalError\<close> is
  \<^verbatim>\<open>pymysql.OperationalError\<close> with its \<^verbatim>\<open>(code, message)\<close> arguments.
\<close>

datatype error =
    BadMagicBytesError
  | EventSizeTooSmallError
  | StructError
  | TypeError
  | AttributeError
  | ValueError
  | KeyError event_class
  | LibraryError string
  | OperationalError int string
  | OtherError string

text \<open>
  A decoded event object.  The driver reads \<^verbatim>\<open>position\<close> and \<^verbatim>\<open>next_binlog\<close> of a
  rotate event, \<^verbatim>\<open>table_id\<close> and \<^verbatim>\<open>get_table()\<close> of a table-map event, and the
  class of every event.  The table object is opaque to the driver: type \<open>'t\<close>.
\<close>

datatype 't event =
    Rotate_ev int string
  | Table_map_ev nat 't
  | Plain_ev event_class

fun class_of :: "'t event \<Rightarrow> event_class" where
  "class_of (Rotate_ev p nb) = RotateEvent"
| "class_of (Table_map_ev tid tbl) = TableMapEvent"
| "class_of (Plain_ev c) = c"

text \<open>The attributes of \<^verbatim>\<open>BinLogPacketWrapper\<close> that \<^verbatim>\<open>fetchone\<close> reads.\<close>

record 't packet =
  pk_event :: "'t event option"
  pk_log_pos :: int
  pk_event_type :: nat
  pk_timestamp :: int

text \<open>
  The library's \<^verbatim>\<open>BinLogPacketWrapper\<close> is a parameter of the model: it receives the
  packet bytes, the table map and the set of event classes allowed at packet level, and
  either raises or yields a packet.  The other constructor arguments passed to it are fixed
  for the life of a reader and are part of the parameter.
\<close>

type_synonym 't decoder =
  "byte list \<Rightarrow> (nat \<rightharpoonup> 't) \<Rightarrow> event_class set \<Rightarrow> string + 't packet"

text \<open>
  \<^verbatim>\<open>__connected_ctl\<close>, with the number of connections and queries made so far.
\<close>

record ctl_state =
  connected_ctl :: bool
  connects :: nat
  queries :: nat

text \<open>
  The fields of \<^verbatim>\<open>self\<close> that the frame loop uses.  \<open>ctl_connection_settings\<close> is
  the truth value of the settings (a non-empty dict); \<open>pymysql_wrapper\<close> is what the
  \<open>k\<close>-th call of \<^verbatim>\<open>self.pymysql_wrapper\<close> does: \<open>None\<close> when it returns a connection,
  the \<^verbatim>\<open>(code, message)\<close> of the \<^verbatim>\<open>OperationalError\<close> when it raises.
\<close>

record 't reader =
  file_content :: "byte list"
  file_obj :: "byte list option"
  ctl_connection_settings :: bool
  pymysql_wrapper :: "nat \<Rightarrow> (int \<times> string) option"
  ctl :: ctl_state
  table_map :: "nat \<rightharpoonup> 't"
  log_pos :: "int option"
  start_pos :: "int option"
  stop_pos :: "int option"
  log_file :: "string option"
  skip_to_timestamp :: "int option"
  allowed_events :: "event_class set"
  allowed_events_in_packet :: "event_class set"

section \<open>The allowed event list and the constructor\<close>

definition default_events :: "event_class set" where
  "default_events =
     {QueryEvent, RotateEvent, StopEvent, FormatDescriptionEvent, XidEvent, GtidEvent,
      BeginLoadQueryEvent, ExecuteLoadQueryEvent, UpdateRowsEvent, WriteRowsEvent,
      DeleteRowsEvent, TableMapEvent, HeartbeatLogEvent, NotImplementedEvent}"

text \<open>
  \<^verbatim>\<open>for e in ignored_events: events.remove(e)\<close>: \<^verbatim>\<open>set.remove\<close> raises
  \<^verbatim>\<open>KeyError\<close> when the element is absent, and nothing catches it.
\<close>

fun remove_ignored :: "event_class list \<Rightarrow> event_class set \<Rightarrow> error + event_class set" where
  "remove_ignored [] events = Inr events"
| "remove_ignored (e # es) events =
     (if e \<in> events then remove_ignored es (events - {e}) else Inl (KeyError e))"

text \<open>
  \<^verbatim>\<open>try: events.remove(NotImplementedEvent) except KeyError: pass\<close> leaves the set
  without the class whether or not it was there.
\<close>

definition initial_events :: "event_class list option \<Rightarrow> event_class set" where
  "initial_events only_events =
     (case only_events of Some l \<Rightarrow> set l | None \<Rightarrow> default_events)"

definition allowed_event_list ::
  "event_class list option \<Rightarrow> event_class list option \<Rightarrow> bool \<Rightarrow> error + event_class set" where
  "allowed_event_list only_events ignored_events filter_non_implemented_events =
     (case (case ignored_events of
              Some l \<Rightarrow> remove_ignored l (initial_events only_events)
            | None \<Rightarrow> Inr (initial_events only_events)) of
        Inl err \<Rightarrow> Inl err
      | Inr events \<Rightarrow>
          Inr (if filter_non_implemented_events
               then events - {NotImplementedEvent} else events))"

text \<open>
  The constructor arguments the frame loop depends on.  \<open>arg_file\<close> is the content of
  the file at \<^verbatim>\<open>file_path\<close>.
\<close>

record init_args =
  arg_file :: "byte list"
  arg_ctl_connection_settings :: bool
  arg_pymysql_wrapper :: "nat \<Rightarrow> (int \<times> string) option"
  arg_only_events :: "event_class list option"
  arg_log_file :: "string option"
  arg_log_pos :: "int option"
  arg_filter_non_implemented_events :: bool
  arg_stop_pos :: "int option"
  arg_ignored_events :: "event_class list option"
  arg_skip_to_timestamp :: "int option"

text \<open>
  The defaults of the constructor's signature.  The default wrapper is
  \<^verbatim>\<open>pymysql.connect\<close>, here one that connects; without settings it is never called.
\<close>

definition default_args :: "byte list \<Rightarrow> init_args" where
  "default_args bs =
     \<lparr>arg_file = bs, arg_ctl_connection_settings = False,
      arg_pymysql_wrapper = (\<lambda>k. None), arg_only_events = None, arg_log_file = None, arg_log_pos = None,
      arg_filter_non_implemented_events = True, arg_stop_pos = None,
      arg_ignored_events = None, arg_skip_to_timestamp = None\<rparr>"

text \<open>
  \<^verbatim>\<open>__checksum_enabled\<close>, the last statement of the constructor: with settings it calls
  \<^verbatim>\<open>__connect_to_ctl\<close> and, once connected, runs one query; every exception is
  swallowed, so a failed connect only leaves the flag down.  Its result goes to the
  decoder and is part of that parameter.
\<close>

definition checksum_probe :: "bool \<Rightarrow> (nat \<Rightarrow> (int \<times> string) option) \<Rightarrow> ctl_state" where
  "checksum_probe settings wrapper =
     (if settings then
        (case wrapper 0 of
           None \<Rightarrow> \<lparr>connected_ctl = True, connects = 1, queries = 1\<rparr>
         | Some err \<Rightarrow> \<lparr>connected_ctl = False, connects = 1, queries = 0\<rparr>)
      else \<lparr>connected_ctl = False, connects = 0, queries = 0\<rparr>)"

definition BinLogFileReader_init :: "init_args \<Rightarrow> error + 't reader" where
  "BinLogFileReader_init a =
     (case allowed_event_list (arg_only_events a) (arg_ignored_events a)
             (arg_filter_non_implemented_events a) of
        Inl err \<Rightarrow> Inl err
      | Inr allowed \<Rightarrow>
          Inr \<lparr>file_content = arg_file a,
               file_obj = None,
               ctl_connection_settings = arg_ctl_connection_settings a,
               pymysql_wrapper = arg_pymysql_wrapper a,
               ctl = checksum_probe (arg_ctl_connection_settings a) (arg_pymysql_wrapper a),
               table_map = Map.empty,
               log_pos = arg_log_pos a,
               start_pos = arg_log_pos a,
               stop_pos = arg_stop_pos a,
               log_file = arg_log_file a,
               skip_to_timestamp = arg_skip_to_timestamp a,
               allowed_events = allowed,
               allowed_events_in_packet = {TableMapEvent, RotateEvent} \<union> allowed\<rparr>)"

section \<open>Reading frames\<close>

text \<open>
  \<^verbatim>\<open>file.read(n)\<close> on the unread bytes of a file opened with \<^verbatim>\<open>'rb+'\<close> (a buffered
  file): at most \<open>n\<close> bytes, fewer at the end of the file; the count -1 reads everything
  that is left, and a count below -1 raises \<^verbatim>\<open>ValueError\<close>.  The result is the bytes
  read and the bytes still unread.
\<close>

definition file_read :: "int \<Rightarrow> byte list \<Rightarrow> error + byte list \<times> byte list" where
  "file_read n bs =
     (if n < - 1 then Inl ValueError
      else if n = - 1 then Inr (bs, [])
      else Inr (take (nat n) bs, drop (nat n) bs))"

definition expected_magic :: "byte list" where
  "expected_magic = [0xFE, 0x62, 0x69, 0x6E]"

text \<open>
  \<^verbatim>\<open>__connect_to_stream\<close>, called when \<^verbatim>\<open>_file\<close> is \<^verbatim>\<open>None\<close>: open the file at
  offset 0, read four bytes and compare them with the magic.
\<close>

definition connect_to_stream :: "'t reader \<Rightarrow> error + 't reader" where
  "connect_to_stream s =
     (case file_read 4 (file_content s) of
        Inl err \<Rightarrow> Inl err
      | Inr (magic, rest) \<Rightarrow>
          if magic = expected_magic then Inr (s\<lparr>file_obj := Some rest\<rparr>)
          else Inl BadMagicBytesError)"

text \<open>
  Lines 160 and 161 of \<^verbatim>\<open>fetchone\<close> with \<^verbatim>\<open>__connect_to_ctl\<close>: when the control
  connection is configured and not up, call the wrapper; it may raise, and the flag is set
  only when it returns.
\<close>

definition connect_ctl_if_needed :: "'t reader \<Rightarrow> error + 't reader" where
  "connect_ctl_if_needed s =
     (if \<not> connected_ctl (ctl s) \<and> ctl_connection_settings s then
        (case pymysql_wrapper s (connects (ctl s)) of
           Some (code, message) \<Rightarrow> Inl (OperationalError code message)
         | None \<Rightarrow>
             Inr (s\<lparr>ctl := (ctl s)\<lparr>connected_ctl := True,
                                   connects := Suc (connects (ctl s))\<rparr>\<rparr>))
      else Inr s)"

text \<open>Little-endian unsigned integers, as \<^verbatim>\<open>struct.unpack\<close> reads them.\<close>

fun le_uint :: "byte list \<Rightarrow> nat" where
  "le_uint [] = 0"
| "le_uint (b # bs) = unat b + 256 * le_uint bs"

record header =
  hd_timestamp :: nat
  hd_event_type :: nat
  hd_server_id :: nat
  hd_event_size :: nat
  hd_log_pos :: nat
  hd_flags :: nat

text \<open>
  \<^verbatim>\<open>struct.unpack('<IcIIIH', header)\<close> needs exactly 19 bytes and raises
  \<^verbatim>\<open>struct.error\<close> on any other length.
\<close>

definition unpack_header :: "byte list \<Rightarrow> error + header" where
  "unpack_header h =
     (if length h \<noteq> 19 then Inl StructError
      else Inr \<lparr>hd_timestamp = le_uint (take 4 h),
                hd_event_type = le_uint (take 1 (drop 4 h)),
                hd_server_id = le_uint (take 4 (drop 5 h)),
                hd_event_size = le_uint (take 4 (drop 9 h)),
                hd_log_pos = le_uint (take 4 (drop 13 h)),
                hd_flags = le_uint (take 2 (drop 17 h))\<rparr>)"

text \<open>
  Lines 157 to 193 of \<^verbatim>\<open>fetchone\<close>: open the file if needed, connect the control
  connection if needed, read the header, stop at an empty read, unpack, read the body,
  build the packet \<^verbatim>\<open>b'0' + header + body\<close> and hand it to the decoder.  The result is
  an exception, the end of the file (\<open>None\<close>) or the decoded packet, with the reader whose
  file cursor has moved.  \<open>read_frame\<close> is the part from the header read on;
  \<open>read_packet\<close> does the two connection steps first.  \<open>connect_to_stream\<close> always leaves
  the file open, so the \<open>OtherError\<close> branch of \<open>read_packet\<close> is never taken.
\<close>

definition read_frame ::
  "'t decoder \<Rightarrow> 't reader \<Rightarrow> byte list \<Rightarrow> error + ('t packet option \<times> 't reader)" where
  "read_frame dec s unread_bytes =
     (case file_read 19 unread_bytes of
        Inl err \<Rightarrow> Inl err
      | Inr (header, rest) \<Rightarrow>
          if header = [] then Inr (None, s\<lparr>file_obj := Some rest\<rparr>)
          else
            (case unpack_header header of
               Inl err \<Rightarrow> Inl err
             | Inr unpacked \<Rightarrow>
                 (case file_read (int (hd_event_size unpacked) - 19) rest of
                    Inl err \<Rightarrow> Inl err
                  | Inr (body, rest') \<Rightarrow>
                      (case dec (0x30 # header @ body) (table_map s)
                              (allowed_events_in_packet s) of
                         Inl msg \<Rightarrow> Inl (LibraryError msg)
                       | Inr binlog_event \<Rightarrow>
                           Inr (Some binlog_event, s\<lparr>file_obj := Some rest'\<rparr>)))))"

definition read_packet ::
  "'t decoder \<Rightarrow> 't reader \<Rightarrow> error + ('t packet option \<times> 't reader)" where
  "read_packet dec s =
     (case (case file_obj s of None \<Rightarrow> connect_to_stream s | Some bs \<Rightarrow> Inr s) of
        Inl err \<Rightarrow> Inl err
      | Inr s1 \<Rightarrow>
          (case connect_ctl_if_needed s1 of
             Inl err \<Rightarrow> Inl err
           | Inr s2 \<Rightarrow>
               (case file_obj s2 of
                  None \<Rightarrow> Inl (OtherError ''file not open'')
                | Some bs \<Rightarrow> read_frame dec s2 bs)))"

text \<open>
  The end positions that the headers of a run of frames declare, in file order, splitting
  the bytes into frames as \<open>read_frame\<close> does.
\<close>

function end_positions :: "byte list \<Rightarrow> nat list" where
  "end_positions bs =
     (case file_read 19 bs of
        Inl err \<Rightarrow> []
      | Inr (header, rest) \<Rightarrow>
          if header = [] then []
          else
            (case unpack_header header of
               Inl err \<Rightarrow> []
             | Inr unpacked \<Rightarrow>
                 (case file_read (int (hd_event_size unpacked) - 19) rest of
                    Inl err \<Rightarrow> []
                  | Inr (body, rest') \<Rightarrow> hd_log_pos unpacked # end_positions rest')))"
  by pat_completeness auto
termination
  by (relation "measure length")
    (auto simp: file_read_def unpack_header_def split: if_splits)

declare end_positions.simps [simp del]

text \<open>The bytes a reader has still to read: all after the magic when the file is unopened.\<close>

definition pending :: "'t reader \<Rightarrow> byte list" where
  "pending s = (case file_obj s of None \<Rightarrow> drop 4 (file_content s) | Some bs \<Rightarrow> bs)"

section \<open>Handling a decoded packet\<close>

definition ROTATE_EVENT :: nat where
  "ROTATE_EVENT = 0x04"

definition TABLE_MAP_EVENT :: nat where
  "TABLE_MAP_EVENT = 0x13"

text \<open>What one iteration of the \<^verbatim>\<open>while True\<close> loop does.\<close>

datatype 't outcome =
    Continue "'t reader"
  | Break "'t reader"
  | Return "'t packet" "'t reader"
  | Raise error

text \<open>
  \<^verbatim>\<open>binlog_event.log_pos < self.start_pos\<close>: a \<^verbatim>\<open>TypeError\<close> when
  \<^verbatim>\<open>start_pos\<close> is \<^verbatim>\<open>None\<close>.
\<close>

definition before_start :: "'t packet \<Rightarrow> 't reader \<Rightarrow> error + bool" where
  "before_start binlog_event s =
     (case start_pos s of
        None \<Rightarrow> Inl TypeError
      | Some sp \<Rightarrow> Inr (pk_log_pos binlog_event < sp))"

text \<open>
  \<^verbatim>\<open>self.stop_pos and binlog_event.log_pos >= self.stop_pos\<close>: \<^verbatim>\<open>None\<close> and
  \<^verbatim>\<open>0\<close> are both false.
\<close>

definition stop_reached :: "'t packet \<Rightarrow> 't reader \<Rightarrow> bool" where
  "stop_reached binlog_event s =
     (case stop_pos s of
        None \<Rightarrow> False
      | Some ep \<Rightarrow> ep \<noteq> 0 \<and> pk_log_pos binlog_event \<ge> ep)"

text \<open>
  Lines 201 to 215: a rotate event sets the position and the file and empties the table
  map; any other event with a non-zero position sets the position.
\<close>

definition track_position :: "'t packet \<Rightarrow> 't event \<Rightarrow> 't reader \<Rightarrow> error + 't reader" where
  "track_position binlog_event ev s =
     (if pk_event_type binlog_event = ROTATE_EVENT then
        (case ev of
           Rotate_ev position next_binlog \<Rightarrow>
             Inr (s\<lparr>log_pos := Some position, log_file := Some next_binlog,
                    table_map := Map.empty\<rparr>)
         | _ \<Rightarrow> Inl AttributeError)
      else if pk_log_pos binlog_event \<noteq> 0 then
        Inr (s\<lparr>log_pos := Some (pk_log_pos binlog_event)\<rparr>)
      else Inr s)"

text \<open>
  \<^verbatim>\<open>self.skip_to_timestamp and binlog_event.timestamp < self.skip_to_timestamp\<close>.
\<close>

definition skipped_by_timestamp :: "'t packet \<Rightarrow> 't reader \<Rightarrow> bool" where
  "skipped_by_timestamp binlog_event s =
     (case skip_to_timestamp s of
        None \<Rightarrow> False
      | Some ts \<Rightarrow> ts \<noteq> 0 \<and> pk_timestamp binlog_event < ts)"

text \<open>Lines 244 to 247: a table-map event is put into the table map.\<close>

definition register_table :: "'t packet \<Rightarrow> 't event \<Rightarrow> 't reader \<Rightarrow> error + 't reader" where
  "register_table binlog_event ev s =
     (if pk_event_type binlog_event = TABLE_MAP_EVENT then
        (case ev of
           Table_map_ev table_id tbl \<Rightarrow>
             Inr (s\<lparr>table_map := (table_map s)(table_id \<mapsto> tbl)\<rparr>)
         | _ \<Rightarrow> Inl AttributeError)
      else Inr s)"

text \<open>Lines 195 to 254, in the order of the source.\<close>

definition handle_event :: "'t packet \<Rightarrow> 't reader \<Rightarrow> 't outcome" where
  "handle_event binlog_event s =
     (case pk_event binlog_event of
        None \<Rightarrow> Continue s
      | Some ev \<Rightarrow>
          (case before_start binlog_event s of
             Inl err \<Rightarrow> Raise err
           | Inr True \<Rightarrow> Continue s
           | Inr False \<Rightarrow>
               if stop_reached binlog_event s then Break s
               else
                 (case track_position binlog_event ev s of
                    Inl err \<Rightarrow> Raise err
                  | Inr s1 \<Rightarrow>
                      if skipped_by_timestamp binlog_event s1 then Continue s1
                      else
                        (case register_table binlog_event ev s1 of
                           Inl err \<Rightarrow> Raise err
                         | Inr s2 \<Rightarrow>
                             if class_of ev \<notin> allowed_events s2 then Continue s2
                             else Return binlog_event s2))))"

definition fetch_step :: "'t decoder \<Rightarrow> 't reader \<Rightarrow> 't outcome" where
  "fetch_step dec s =
     (case read_packet dec s of
        Inl err \<Rightarrow> Raise err
      | Inr (None, s') \<Rightarrow> Break s'
      | Inr (Some binlog_event, s') \<Rightarrow> handle_event binlog_event s')"

section \<open>The loop of fetchone and the iterator\<close>

text \<open>The number of bytes a reader can still consume; an unopened file counts one more.\<close>

definition unread :: "'t reader \<Rightarrow> nat" where
  "unread s =
     (case file_obj s of
        None \<Rightarrow> Suc (length (file_content s))
      | Some bs \<Rightarrow> length bs)"

lemma read_frame_fields:
  "read_frame dec s bs = Inr (x, s') \<Longrightarrow> \<exists>r. s' = s\<lparr>file_obj := Some r\<rparr> \<and> length r \<le> length bs"
  by (auto simp: read_frame_def file_read_def split: if_splits sum.splits prod.splits)

lemma read_frame_Some_less:
  "read_frame dec s bs = Inr (Some be, s') \<Longrightarrow> \<exists>r. s' = s\<lparr>file_obj := Some r\<rparr> \<and> length r < length bs"
  by (auto simp: read_frame_def file_read_def unpack_header_def split: if_splits sum.splits prod.splits)

lemma connect_to_stream_fields:
  "connect_to_stream s = Inr s1 \<Longrightarrow>
     s1 = s\<lparr>file_obj := Some (drop 4 (file_content s))\<rparr>"
  by (auto simp: connect_to_stream_def file_read_def split: if_splits)

lemma connect_ctl_fields:
  "connect_ctl_if_needed s = Inr s1 \<Longrightarrow> \<exists>c. s1 = s\<lparr>ctl := c\<rparr>"
proof -
  assume "connect_ctl_if_needed s = Inr s1"
  then have "s1 = s\<lparr>ctl := ctl s1\<rparr>"
    by (auto simp: connect_ctl_if_needed_def split: if_splits option.splits prod.splits)
  then show ?thesis ..
qed

lemma read_packet_cases:
  assumes "read_packet dec s = Inr (x, s')"
  obtains s1 c bs where "s1 = s \<or> (file_obj s = None \<and> connect_to_stream s = Inr s1)"
    and "file_obj s1 = Some bs" and "unread s1 \<le> unread s"
    and "read_frame dec (s1\<lparr>ctl := c\<rparr>) bs = Inr (x, s')"
proof -
  from assms obtain s1 where a: "(case file_obj s of None \<Rightarrow> connect_to_stream s
                                   | Some bs \<Rightarrow> Inr s) = Inr s1"
    by (auto simp: read_packet_def split: sum.splits)
  with assms obtain s2 where b: "connect_ctl_if_needed s1 = Inr s2"
    by (auto simp: read_packet_def split: sum.splits)
  with a assms obtain bs where c: "file_obj s2 = Some bs"
    and d: "read_frame dec s2 bs = Inr (x, s')"
    by (auto simp: read_packet_def split: option.splits)
  from b obtain c' where s2: "s2 = s1\<lparr>ctl := c'\<rparr>" using connect_ctl_fields by blast
  from a have e: "s1 = s \<or> (file_obj s = None \<and> connect_to_stream s = Inr s1)"
    by (auto split: option.splits)
  have "unread s1 \<le> unread s"
  proof (cases "s1 = s")
    case True
    then show ?thesis by simp
  next
    case False
    with e have "file_obj s = None" "connect_to_stream s = Inr s1" by auto
    then show ?thesis
      using connect_to_stream_fields [of s s1] by (simp add: unread_def)
  qed
  with e c d s2 that [of s1 bs c'] show ?thesis by simp
qed

lemma read_packet_fields:
  "read_packet dec s = Inr (x, s') \<Longrightarrow> \<exists>r c. s' = s\<lparr>file_obj := Some r, ctl := c\<rparr>"
proof -
  assume "read_packet dec s = Inr (x, s')"
  then obtain s1 c bs where a: "s1 = s \<or> (file_obj s = None \<and> connect_to_stream s = Inr s1)"
    and b: "read_frame dec (s1\<lparr>ctl := c\<rparr>) bs = Inr (x, s')"
    by (rule read_packet_cases)
  from b obtain r where r: "s' = s1\<lparr>ctl := c, file_obj := Some r\<rparr>"
    using read_frame_fields by blast
  have "s' = s\<lparr>file_obj := Some r, ctl := c\<rparr>"
  proof (cases "s1 = s")
    case True
    with r show ?thesis by simp
  next
    case False
    with a have "s1 = s\<lparr>file_obj := Some (drop 4 (file_content s))\<rparr>"
      using connect_to_stream_fields by blast
    with r show ?thesis by simp
  qed
  then show ?thesis by blast
qed

lemma read_packet_Some_less:
  "read_packet dec s = Inr (Some be, s') \<Longrightarrow> unread s' < unread s"
proof -
  assume "read_packet dec s = Inr (Some be, s')"
  then obtain s1 c bs where a: "file_obj s1 = Some bs" and le: "unread s1 \<le> unread s"
    and b: "read_frame dec (s1\<lparr>ctl := c\<rparr>) bs = Inr (Some be, s')"
    by (rule read_packet_cases)
  from b obtain r where "s' = s1\<lparr>ctl := c, file_obj := Some r\<rparr>" "length r < length bs"
    using read_frame_Some_less by blast
  with a le show ?thesis by (simp add: unread_def)
qed

lemma handle_event_file:
  "handle_event be s = Continue s' \<or> handle_event be s = Return p s' \<or> handle_event be s = Break s'
     \<Longrightarrow> file_obj s' = file_obj s \<and> file_content s' = file_content s"
  by (auto simp: handle_event_def before_start_def track_position_def register_table_def
           split: option.splits sum.splits if_splits bool.splits event.splits)


lemma handle_event_unread:
  "handle_event be s = Continue s' \<or> handle_event be s = Return p s' \<or> handle_event be s = Break s'
     \<Longrightarrow> unread s' = unread s"
  using handle_event_file [of be s s' p] by (auto simp: unread_def split: option.splits)

lemma fetch_step_Continue_less:
  "fetch_step dec s = Continue s' \<Longrightarrow> unread s' < unread s"
  using handle_event_unread read_packet_Some_less
  by (fastforce simp: fetch_step_def split: sum.splits option.splits prod.splits)

lemma fetch_step_Return_less:
  "fetch_step dec s = Return p s' \<Longrightarrow> unread s' < unread s"
  using handle_event_unread read_packet_Some_less
  by (fastforce simp: fetch_step_def split: sum.splits option.splits prod.splits)

text \<open>
  The \<^verbatim>\<open>while True\<close> loop of \<^verbatim>\<open>fetchone\<close>.  Every iteration that continues has
  consumed a whole header, so the loop ends.  The loop yields the accepted packet; \<open>fetchone\<close>
  returns its event.
\<close>

function fetch_loop :: "'t decoder \<Rightarrow> 't reader \<Rightarrow> error + ('t packet option \<times> 't reader)" where
  "fetch_loop dec s =
     (case fetch_step dec s of
        Continue s' \<Rightarrow> fetch_loop dec s'
      | Break s' \<Rightarrow> Inr (None, s')
      | Return binlog_event s' \<Rightarrow> Inr (Some binlog_event, s')
      | Raise err \<Rightarrow> Inl err)"
  by pat_completeness auto
termination
  by (relation "measure (\<lambda>(dec, s). unread s)") (auto dest: fetch_step_Continue_less)

declare fetch_loop.simps [simp del]

definition fetchone :: "'t decoder \<Rightarrow> 't reader \<Rightarrow> error + ('t event option \<times> 't reader)" where
  "fetchone dec s =
     (case fetch_loop dec s of
        Inl err \<Rightarrow> Inl err
      | Inr (None, s') \<Rightarrow> Inr (None, s')
      | Inr (Some binlog_event, s') \<Rightarrow> Inr (pk_event binlog_event, s'))"

lemma fetch_loop_less:
  "fetch_loop dec s = Inr (Some p, s') \<Longrightarrow> unread s' < unread s"
proof (induction dec s rule: fetch_loop.induct)
  case (1 dec s)
  show ?case
  proof (cases "fetch_step dec s")
    case (Continue s1)
    with 1 have "unread s' < unread s1" by (simp add: fetch_loop.simps [of dec s])
    moreover have "unread s1 < unread s" using Continue by (rule fetch_step_Continue_less)
    ultimately show ?thesis by simp
  next
    case (Break s1)
    with 1 show ?thesis by (simp add: fetch_loop.simps [of dec s])
  next
    case (Return q s1)
    with 1 have "q = p" "s1 = s'" by (simp_all add: fetch_loop.simps [of dec s])
    with Return show ?thesis using fetch_step_Return_less by blast
  next
    case (Raise e)
    with 1 show ?thesis by (simp add: fetch_loop.simps [of dec s])
  qed
qed

text \<open>
  \<^verbatim>\<open>__iter__\<close> is \<^verbatim>\<open>iter(self.fetchone, None)\<close>: call \<^verbatim>\<open>fetchone\<close> until it
  returns \<^verbatim>\<open>None\<close> or raises.  The result is the accepted packets in order and the
  exception that ended the iteration, if any.
\<close>

function events :: "'t decoder \<Rightarrow> 't reader \<Rightarrow> 't packet list \<times> error option" where
  "events dec s =
     (case fetch_loop dec s of
        Inl err \<Rightarrow> ([], Some err)
      | Inr (None, s') \<Rightarrow> ([], None)
      | Inr (Some binlog_event, s') \<Rightarrow>
          (case events dec s' of (rest, err) \<Rightarrow> (binlog_event # rest, err)))"
  by pat_completeness auto
termination
  by (relation "measure (\<lambda>(dec, s). unread s)") (auto dest: fetch_loop_less)

declare events.simps [simp del]

section \<open>The metadata resolver\<close>

definition MYSQL_EXPECTED_ERROR_CODES :: "int list" where
  "MYSQL_EXPECTED_ERROR_CODES = [2013, 2006]"

text \<open>
  The MySQL server as the resolver sees it: what the \<open>k\<close>-th call of
  \<^verbatim>\<open>pymysql.connect\<close> does (\<open>None\<close>: it succeeds) and what the \<open>k\<close>-th query does
  (an exception or the rows of \<^verbatim>\<open>fetchall\<close>).
\<close>

record 'r ctl_server =
  connect_reply :: "nat \<Rightarrow> error option"
  query_reply :: "nat \<Rightarrow> error + 'r"

text \<open>\<^verbatim>\<open>__connect_to_ctl\<close>: the flag is set only when the connect call returns.\<close>

definition connect_to_ctl :: "'r ctl_server \<Rightarrow> ctl_state \<Rightarrow> error option \<times> ctl_state" where
  "connect_to_ctl srv c =
     (case connect_reply srv (connects c) of
        Some err \<Rightarrow> (Some err, c\<lparr>connects := Suc (connects c)\<rparr>)
      | None \<Rightarrow> (None, c\<lparr>connected_ctl := True, connects := Suc (connects c)\<rparr>))"

text \<open>
  The body of the \<^verbatim>\<open>try\<close>: connect if not connected, run the query, fetch the rows.
\<close>

definition attempt :: "'r ctl_server \<Rightarrow> ctl_state \<Rightarrow> (error + 'r) \<times> ctl_state" where
  "attempt srv c =
     (case (if \<not> connected_ctl c then connect_to_ctl srv c else (None, c)) of
        (Some err, c1) \<Rightarrow> (Inl err, c1)
      | (None, c1) \<Rightarrow> (query_reply srv (queries c1), c1\<lparr>queries := Suc (queries c1)\<rparr>))"

text \<open>
  \<^verbatim>\<open>for i in range(1, 3)\<close>: a successful attempt returns its rows; an
  \<^verbatim>\<open>OperationalError\<close> with an expected code clears the flag and continues; any other
  code, and any other exception, propagates.  When the range is exhausted the function
  ends without a \<^verbatim>\<open>return\<close>, so its value is \<^verbatim>\<open>None\<close>.
\<close>

fun table_information_loop ::
  "'r ctl_server \<Rightarrow> nat list \<Rightarrow> ctl_state \<Rightarrow> (error + 'r option) \<times> ctl_state" where
  "table_information_loop srv [] c = (Inr None, c)"
| "table_information_loop srv (i # rest) c =
     (case attempt srv c of
        (Inr rows, c1) \<Rightarrow> (Inr (Some rows), c1)
      | (Inl (OperationalError code message), c1) \<Rightarrow>
          if code \<in> set MYSQL_EXPECTED_ERROR_CODES
          then table_information_loop srv rest (c1\<lparr>connected_ctl := False\<rparr>)
          else (Inl (OperationalError code message), c1)
      | (Inl err, c1) \<Rightarrow> (Inl err, c1))"

definition get_table_information ::
  "'r ctl_server \<Rightarrow> ctl_state \<Rightarrow> (error + 'r option) \<times> ctl_state" where
  "get_table_information srv c = table_information_loop srv [1, 2] c"

text \<open>
  Two servers for concrete runs: one whose every query fails with code 2013, and one whose
  first query fails with code 2013 and whose later queries return rows.
\<close>

definition lost_server :: "string list ctl_server" where
  "lost_server =
     \<lparr>connect_reply = (\<lambda>k. None),
      query_reply = (\<lambda>k. Inl (OperationalError 2013 ''Lost connection''))\<rparr>"

definition flaky_server :: "string list ctl_server" where
  "flaky_server =
     \<lparr>connect_reply = (\<lambda>k. None),
      query_reply = (\<lambda>k. if k = 0 then Inl (OperationalError 2013 ''Lost connection'')
                           else Inr [''id'', ''name''])\<rparr>"

section \<open>The packet-level filter of the decoder\<close>

text \<open>A packet whose event is of class \<open>NotImplementedEvent\<close>, and the same packet as
  the decoder yields it when that class is not allowed at packet level.\<close>

definition is_not_implemented :: "'t packet \<Rightarrow> bool" where
  "is_not_implemented be =
     (case pk_event be of None \<Rightarrow> False | Some ev \<Rightarrow> class_of ev = NotImplementedEvent)"

definition strip_not_implemented :: "'t packet \<Rightarrow> 't packet" where
  "strip_not_implemented be =
     (if is_not_implemented be then be\<lparr>pk_event := None\<rparr> else be)"

text \<open>
  The library's contract for the packet-level filter, as far as \<open>NotImplementedEvent\<close>
  goes: taking the class out of the allowed set changes nothing but the event of the
  packets of that class, which becomes \<^verbatim>\<open>None\<close>; and a packet of that class has neither
  the rotate nor the table-map type code.
\<close>

definition packet_level_filter :: "'t decoder \<Rightarrow> bool" where
  "packet_level_filter dec \<longleftrightarrow>
     (\<forall>pkt tm A. dec pkt tm (A - {NotImplementedEvent}) =
        (case dec pkt tm A of
           Inl msg \<Rightarrow> Inl msg
         | Inr be \<Rightarrow> Inr (strip_not_implemented be)))
     \<and> (\<forall>pkt tm A be. dec pkt tm A = Inr be \<and> is_not_implemented be \<longrightarrow>
           pk_event_type be \<noteq> ROTATE_EVENT \<and> pk_event_type be \<noteq> TABLE_MAP_EVENT)"

text \<open>
  The library's packet wrapper takes its \<^verbatim>\<open>log_pos\<close> from the header: bytes 14 to 17 of
  the packet, after the status byte.
\<close>

definition header_position :: "'t decoder \<Rightarrow> bool" where
  "header_position dec \<longleftrightarrow>
     (\<forall>pkt tm A be. dec pkt tm A = Inr be \<longrightarrow>
        pk_log_pos be = int (le_uint (take 4 (drop 14 pkt))))"

section \<open>A decoder and files for concrete runs\<close>

text \<open>
  The type codes of the binlog format and the class the library decodes each into; every
  other code is decoded as \<open>NotImplementedEvent\<close>.
\<close>

definition event_class_of_type :: "nat \<Rightarrow> event_class" where
  "event_class_of_type t =
     (if t = 0x02 then QueryEvent
      else if t = 0x03 then StopEvent
      else if t = 0x04 then RotateEvent
      else if t = 0x0F then FormatDescriptionEvent
      else if t = 0x10 then XidEvent
      else if t = 0x11 then BeginLoadQueryEvent
      else if t = 0x12 then ExecuteLoadQueryEvent
      else if t = 0x13 then TableMapEvent
      else if t = 0x1B then HeartbeatLogEvent
      else if t = 0x1E then WriteRowsEvent
      else if t = 0x1F then UpdateRowsEvent
      else if t = 0x20 then DeleteRowsEvent
      else if t = 0x21 then GtidEvent
      else NotImplementedEvent)"

text \<open>
  A decoder to run the model on concrete files.  Like the library's packet wrapper it takes
  the timestamp, the type code and the end position from the header that follows the
  leading status byte, yields no event when the class is not allowed at packet level, and
  reads the position and file name of a rotate event and the table id of a table-map event
  from the body.
\<close>

definition sample_decoder :: "unit decoder" where
  "sample_decoder pkt tm allowed =
     (if length pkt < 20 then Inl ''short packet''
      else
        Inr \<lparr>pk_event =
               (case event_class_of_type (le_uint (take 1 (drop 5 pkt))) of
                  c \<Rightarrow>
                    if c \<notin> allowed then None
                    else if c = RotateEvent then
                      Some (Rotate_ev (int (le_uint (take 8 (drop 20 pkt))))
                              (map (\<lambda>b. char_of (unat b)) (drop 28 pkt)))
                    else if c = TableMapEvent then
                      Some (Table_map_ev (le_uint (take 6 (drop 20 pkt))) ())
                    else Some (Plain_ev c)),
             pk_log_pos = int (le_uint (take 4 (drop 14 pkt))),
             pk_event_type = le_uint (take 1 (drop 5 pkt)),
             pk_timestamp = int (le_uint (take 4 (drop 1 pkt)))\<rparr>)"

text \<open>
  Two files of one frame each after the magic: a rotate event (timestamp 0, end position
  34) to position 4 of file \<open>b.2\<close>, and a table-map event (timestamp 9, end position 29)
  for table id 7.
\<close>

definition rotate_file :: "byte list" where
  "rotate_file =
     [0xFE, 0x62, 0x69, 0x6E,
      0, 0, 0, 0,  0x04,  1, 0, 0, 0,  30, 0, 0, 0,  34, 0, 0, 0,  0, 0,
      4, 0, 0, 0, 0, 0, 0, 0,  0x62, 0x2E, 0x32]"

definition table_map_file :: "byte list" where
  "table_map_file =
     [0xFE, 0x62, 0x69, 0x6E,
      9, 0, 0, 0,  0x13,  1, 0, 0, 0,  25, 0, 0, 0,  29, 0, 0, 0,  0, 0,
      7, 0, 0, 0, 0, 0]"


definition failing_wrapper :: "nat \<Rightarrow> (int \<times> string) option" where
  "failing_wrapper k = Some (2003, ''no server'')"

text \<open>The reader a successful constructor call returns.\<close>

definition sample_reader :: "init_args \<Rightarrow> unit reader" where
  "sample_reader a = projr (BinLogFileReader_init a)"

lemmas run_defs = fetch_step_def read_packet_def read_frame_def connect_ctl_if_needed_def
      checksum_probe_def
      connect_to_stream_def file_read_def expected_magic_def unpack_header_def handle_event_def
      before_start_def stop_reached_def track_position_def skipped_by_timestamp_def register_table_def
      sample_decoder_def event_class_of_type_def sample_reader_def BinLogFileReader_init_def allowed_event_list_def
      initial_events_def default_events_def default_args_def ROTATE_EVENT_def TABLE_MAP_EVENT_def char_of_def

text \<open>
  Files of plain query frames (type code 2) with end positions 100 and 200, a file that
  ends one byte into a header, and two files whose only header declares an event size
  below 19 (18 and 0) and is followed by three more bytes.
\<close>

definition query_file :: "byte list" where
  "query_file =
     [0xFE, 0x62, 0x69, 0x6E,
      5, 0, 0, 0,  0x02,  1, 0, 0, 0,  19, 0, 0, 0,  100, 0, 0, 0,  0, 0]"

definition two_query_file :: "byte list" where
  "two_query_file =
     [0xFE, 0x62, 0x69, 0x6E,
      5, 0, 0, 0,  0x02,  1, 0, 0, 0,  19, 0, 0, 0,  100, 0, 0, 0,  0, 0,
      6, 0, 0, 0,  0x02,  1, 0, 0, 0,  19, 0, 0, 0,  200, 0, 0, 0,  0, 0]"

definition partial_header_file :: "byte list" where
  "partial_header_file = [0xFE, 0x62, 0x69, 0x6E, 0]"

definition small_size_file :: "byte list" where
  "small_size_file =
     [0xFE, 0x62, 0x69, 0x6E,
      5, 0, 0, 0,  0x02,  1, 0, 0, 0,  18, 0, 0, 0,  23, 0, 0, 0,  0, 0,
      1, 2, 3]"

definition zero_size_file :: "byte list" where
  "zero_size_file =
     [0xFE, 0x62, 0x69, 0x6E,
      5, 0, 0, 0,  0x02,  1, 0, 0, 0,  0, 0, 0, 0,  23, 0, 0, 0,  0, 0,
      1, 2, 3]"

lemmas file_defs = query_file_def two_query_file_def partial_header_file_def small_size_file_def
  zero_size_file_def
  rotate_file_def table_map_file_def

text \<open>
  A file with end positions 50, 200, 300 whose second frame has an unknown type code
  (0x63); and a frame of that type code with end position 200 followed by a query frame
  with end position 50.
\<close>

definition stop_at_unknown_file :: "byte list" where
  "stop_at_unknown_file =
     [0xFE, 0x62, 0x69, 0x6E,
      6, 0, 0, 0,  0x02,  1, 0, 0, 0,  19, 0, 0, 0,  50, 0, 0, 0,  0, 0,
      7, 0, 0, 0,  0x63,  1, 0, 0, 0,  19, 0, 0, 0,  200, 0, 0, 0,  0, 0,
      8, 0, 0, 0,  0x02,  1, 0, 0, 0,  19, 0, 0, 0,  44, 1, 0, 0,  0, 0]"

definition unknown_then_query_file :: "byte list" where
  "unknown_then_query_file =
     [0xFE, 0x62, 0x69, 0x6E,
      7, 0, 0, 0,  0x63,  1, 0, 0, 0,  19, 0, 0, 0,  200, 0, 0, 0,  0, 0,
      8, 0, 0, 0,  0x02,  1, 0, 0, 0,  19, 0, 0, 0,  50, 0, 0, 0,  0, 0]"

section \<open>Properties of the allowed event list\<close>

lemma remove_ignored_ok:
  "distinct l \<Longrightarrow> set l \<subseteq> S \<Longrightarrow> remove_ignored l S = Inr (S - set l)"
proof (induction l arbitrary: S)
  case Nil
  then show ?case by simp
next
  case (Cons e es)
  then have "remove_ignored es (S - {e}) = Inr ((S - {e}) - set es)"
    by (intro Cons.IH) auto
  with Cons.prems show ?case by auto
qed

lemma remove_ignored_fails:
  "\<not> (distinct l \<and> set l \<subseteq> S) \<Longrightarrow> \<exists>k \<in> set l. remove_ignored l S = Inl (KeyError k)"
proof (induction l arbitrary: S)
  case Nil
  then show ?case by simp
next
  case (Cons e es)
  show ?case
  proof (cases "e \<in> S")
    case False
    then show ?thesis by simp
  next
    case True
    with Cons.prems have "\<not> (distinct es \<and> set es \<subseteq> S - {e})" by auto
    from Cons.IH [OF this] True show ?thesis by auto
  qed
qed

text \<open>
  C10.  If the \<^verbatim>\<open>ignored_events\<close> list names a class that is not in the set at the
  moment it is removed (the list is not duplicate-free, or names a class outside the initial
  set, e.g. one left out of \<^verbatim>\<open>only_events\<close>), the constructor fails with a
  \<^verbatim>\<open>KeyError\<close> for one of the listed classes.  Otherwise it succeeds, and the removal of
  \<^verbatim>\<open>NotImplementedEvent\<close> under \<^verbatim>\<open>filter_non_implemented_events\<close> never raises,
  whether or not the class is still in the set.
\<close>

theorem ignored_events_KeyError:
  "(\<not> (distinct ign \<and> set ign \<subseteq> initial_events (arg_only_events a))
      \<and> arg_ignored_events a = Some ign
    \<longrightarrow> (\<exists>k \<in> set ign.
          (BinLogFileReader_init a :: error + 't reader) = Inl (KeyError k)))
   \<and> (arg_ignored_events a = None
        \<or> (\<exists>l. arg_ignored_events a = Some l \<and> distinct l
                 \<and> set l \<subseteq> initial_events (arg_only_events a))
    \<longrightarrow> (\<exists>s. (BinLogFileReader_init a :: error + 't reader) = Inr s
           \<and> (arg_filter_non_implemented_events a
                \<longrightarrow> NotImplementedEvent \<notin> allowed_events s)))"
proof (intro conjI impI)
  assume h: "\<not> (distinct ign \<and> set ign \<subseteq> initial_events (arg_only_events a))
      \<and> arg_ignored_events a = Some ign"
  then obtain k where "k \<in> set ign"
    and "remove_ignored ign (initial_events (arg_only_events a)) = Inl (KeyError k)"
    using remove_ignored_fails by blast
  with h show "\<exists>k \<in> set ign.
      (BinLogFileReader_init a :: error + 't reader) = Inl (KeyError k)"
    by (auto simp: BinLogFileReader_init_def allowed_event_list_def)
next
  assume "arg_ignored_events a = None
        \<or> (\<exists>l. arg_ignored_events a = Some l \<and> distinct l
                 \<and> set l \<subseteq> initial_events (arg_only_events a))"
  then show "\<exists>s. (BinLogFileReader_init a :: error + 't reader) = Inr s
           \<and> (arg_filter_non_implemented_events a
                \<longrightarrow> NotImplementedEvent \<notin> allowed_events s)"
    by (auto simp: BinLogFileReader_init_def allowed_event_list_def remove_ignored_ok)
qed

theorem ignored_events_KeyError_witness:
  "(BinLogFileReader_init
      ((default_args [])\<lparr>arg_ignored_events := Some [QueryEvent, QueryEvent]\<rparr>)
        :: error + unit reader) = Inl (KeyError QueryEvent)
   \<and> (BinLogFileReader_init
      ((default_args [])\<lparr>arg_only_events := Some [QueryEvent],
                            arg_ignored_events := Some [XidEvent]\<rparr>)
        :: error + unit reader) = Inl (KeyError XidEvent)
   \<and> (\<exists>s. (BinLogFileReader_init
             ((default_args [])\<lparr>arg_only_events := Some [QueryEvent]\<rparr>)
               :: error + unit reader) = Inr s
          \<and> NotImplementedEvent \<notin> allowed_events s)"
  using ignored_events_KeyError
          [where ign = "[QueryEvent, QueryEvent]" and 't = unit
             and a = "(default_args [])\<lparr>arg_ignored_events := Some [QueryEvent, QueryEvent]\<rparr>"]
        ignored_events_KeyError
          [where ign = "[XidEvent]" and 't = unit
             and a = "(default_args [])\<lparr>arg_only_events := Some [QueryEvent],
                                           arg_ignored_events := Some [XidEvent]\<rparr>"]
        ignored_events_KeyError
          [where ign = "[]" and 't = unit
             and a = "(default_args [])\<lparr>arg_only_events := Some [QueryEvent]\<rparr>"]
  by (simp add: default_args_def initial_events_def)

section \<open>One iteration of the loop\<close>

lemma handle_event_config:
  "handle_event be s = Continue s' \<or> handle_event be s = Return p s' \<or> handle_event be s = Break s'
     \<Longrightarrow> start_pos s' = start_pos s \<and> stop_pos s' = stop_pos s
         \<and> skip_to_timestamp s' = skip_to_timestamp s
         \<and> allowed_events s' = allowed_events s
         \<and> allowed_events_in_packet s' = allowed_events_in_packet s"
  by (auto simp: handle_event_def before_start_def track_position_def register_table_def
           split: option.splits sum.splits if_splits bool.splits event.splits)

lemma handle_event_rotate:
  assumes "pk_event be = Some (Rotate_ev position next_binlog)"
    and "pk_event_type be = ROTATE_EVENT"
    and "before_start be s = Inr False"
    and "\<not> stop_reached be s"
  shows "handle_event be s =
     (let s' = s\<lparr>log_pos := Some position, log_file := Some next_binlog,
                  table_map := Map.empty\<rparr>
      in if skipped_by_timestamp be s' then Continue s'
         else if RotateEvent \<notin> allowed_events s then Continue s'
         else Return be s')"
  using assms
  by (simp add: handle_event_def track_position_def register_table_def
        ROTATE_EVENT_def TABLE_MAP_EVENT_def Let_def)

lemma fetch_step_packet:
  "read_packet dec s = Inr (Some be, s1) \<Longrightarrow> fetch_step dec s = handle_event be s1"
  by (simp add: fetch_step_def)

lemma handle_event_no_rotate_dom:
  assumes "pk_event_type be \<noteq> ROTATE_EVENT \<or> pk_event be = None
            \<or> before_start be s \<noteq> Inr False \<or> stop_reached be s"
    and "handle_event be s = Continue s' \<or> handle_event be s = Return p s'
            \<or> handle_event be s = Break s'"
  shows "dom (table_map s) \<subseteq> dom (table_map s')"
  using assms
  by (auto simp: handle_event_def track_position_def register_table_def
           split: option.splits sum.splits if_splits bool.splits event.splits)

text \<open>
  C1.  In any iteration of \<^verbatim>\<open>fetchone\<close> whose decoded packet is a rotate event that
  passes the start and stop position filters, the reader ends the iteration with
  \<open>log_file\<close> set to the event's \<open>next_binlog\<close>, \<open>log_pos\<close> set to its position and an
  empty \<open>table_map\<close>.  In every other iteration that does not raise, no key leaves the
  table map: it is cleared nowhere else.
\<close>

theorem rotate_clears_table_map:
  "(read_packet dec s = Inr (Some be, s1)
      \<and> pk_event be = Some (Rotate_ev position next_binlog)
      \<and> pk_event_type be = ROTATE_EVENT
      \<and> before_start be s1 = Inr False \<and> \<not> stop_reached be s1
    \<longrightarrow> (\<exists>s'. (fetch_step dec s = Continue s' \<or> fetch_step dec s = Return be s')
            \<and> log_file s' = Some next_binlog \<and> log_pos s' = Some position
            \<and> table_map s' = Map.empty))
   \<and> ((fetch_step dec s = Continue t \<or> fetch_step dec s = Break t
          \<or> fetch_step dec s = Return p t)
       \<and> \<not> (\<exists>b s2. read_packet dec s = Inr (Some b, s2) \<and> pk_event b \<noteq> None
                 \<and> pk_event_type b = ROTATE_EVENT
                 \<and> before_start b s2 = Inr False \<and> \<not> stop_reached b s2)
    \<longrightarrow> dom (table_map s) \<subseteq> dom (table_map t))"
proof (intro conjI impI)
  assume h: "read_packet dec s = Inr (Some be, s1)
      \<and> pk_event be = Some (Rotate_ev position next_binlog)
      \<and> pk_event_type be = ROTATE_EVENT
      \<and> before_start be s1 = Inr False \<and> \<not> stop_reached be s1"
  then have "fetch_step dec s = handle_event be s1"
    by (simp add: fetch_step_packet)
  with h show "\<exists>s'. (fetch_step dec s = Continue s' \<or> fetch_step dec s = Return be s')
            \<and> log_file s' = Some next_binlog \<and> log_pos s' = Some position
            \<and> table_map s' = Map.empty"
    by (simp add: handle_event_rotate Let_def)
next
  assume h: "(fetch_step dec s = Continue t \<or> fetch_step dec s = Break t
          \<or> fetch_step dec s = Return p t)
       \<and> \<not> (\<exists>b s2. read_packet dec s = Inr (Some b, s2) \<and> pk_event b \<noteq> None
                 \<and> pk_event_type b = ROTATE_EVENT
                 \<and> before_start b s2 = Inr False \<and> \<not> stop_reached b s2)"
  show "dom (table_map s) \<subseteq> dom (table_map t)"
  proof (cases "read_packet dec s")
    case (Inl e)
    with h show ?thesis by (simp add: fetch_step_def)
  next
    case (Inr r)
    obtain x s1 where r: "r = (x, s1)" by (cases r)
    from Inr r obtain rest c where s1: "s1 = s\<lparr>file_obj := Some rest, ctl := c\<rparr>"
      using read_packet_fields by blast
    show ?thesis
    proof (cases x)
      case None
      with h Inr r s1 show ?thesis by (auto simp: fetch_step_def)
    next
      case (Some b)
      with Inr r have fs: "fetch_step dec s = handle_event b s1"
        by (simp add: fetch_step_def)
      from h Inr r Some
      have "pk_event_type b \<noteq> ROTATE_EVENT \<or> pk_event b = None
            \<or> before_start b s1 \<noteq> Inr False \<or> stop_reached b s1"
        by auto
      from handle_event_no_rotate_dom [OF this, of t p] h fs
      have "dom (table_map s1) \<subseteq> dom (table_map t)" by auto
      with s1 show ?thesis by simp
    qed
  qed
qed

theorem rotate_clears_table_map_witness:
  "read_packet sample_decoder (sample_reader ((default_args rotate_file)\<lparr>arg_log_pos := Some 4\<rparr>))
     = Inr (Some \<lparr>pk_event = Some (Rotate_ev 4 ''b.2''), pk_log_pos = 34,
                  pk_event_type = 4, pk_timestamp = 0\<rparr>,
            (sample_reader ((default_args rotate_file)\<lparr>arg_log_pos := Some 4\<rparr>))
              \<lparr>file_obj := Some []\<rparr>)
   \<and> (\<exists>s'. (fetch_step sample_decoder
               (sample_reader ((default_args rotate_file)\<lparr>arg_log_pos := Some 4\<rparr>)) = Continue s'
            \<or> fetch_step sample_decoder
               (sample_reader ((default_args rotate_file)\<lparr>arg_log_pos := Some 4\<rparr>))
                = Return \<lparr>pk_event = Some (Rotate_ev 4 ''b.2''), pk_log_pos = 34,
                  pk_event_type = 4, pk_timestamp = 0\<rparr> s')
          \<and> log_file s' = Some ''b.2'' \<and> log_pos s' = Some 4 \<and> table_map s' = Map.empty)
   \<and> fetch_step sample_decoder
        (sample_reader ((default_args table_map_file)\<lparr>arg_log_pos := Some 4\<rparr>))
       = Return \<lparr>pk_event = Some (Table_map_ev 7 ()), pk_log_pos = 29,
                  pk_event_type = 19, pk_timestamp = 9\<rparr>
          ((sample_reader ((default_args table_map_file)\<lparr>arg_log_pos := Some 4\<rparr>))
              \<lparr>file_obj := Some [], log_pos := Some 29, table_map := [7 \<mapsto> ()]\<rparr>)
   \<and> dom (table_map (sample_reader ((default_args table_map_file)\<lparr>arg_log_pos := Some 4\<rparr>)))
        \<subseteq> dom [7 \<mapsto> ()]"
  using rotate_clears_table_map
          [where dec = sample_decoder
             and s = "sample_reader ((default_args rotate_file)\<lparr>arg_log_pos := Some 4\<rparr>)"
             and be = "\<lparr>pk_event = Some (Rotate_ev 4 ''b.2''), pk_log_pos = 34,
                  pk_event_type = 4, pk_timestamp = 0\<rparr>"
             and ?s1.0 = "(sample_reader ((default_args rotate_file)\<lparr>arg_log_pos := Some 4\<rparr>))
              \<lparr>file_obj := Some []\<rparr>"
             and position = 4 and next_binlog = "''b.2''", THEN conjunct1]
        rotate_clears_table_map
          [where dec = sample_decoder
             and s = "sample_reader ((default_args table_map_file)\<lparr>arg_log_pos := Some 4\<rparr>)"
             and p = "\<lparr>pk_event = Some (Table_map_ev 7 ()), pk_log_pos = 29,
                  pk_event_type = 19, pk_timestamp = 9\<rparr>"
             and t = "(sample_reader ((default_args table_map_file)\<lparr>arg_log_pos := Some 4\<rparr>))
              \<lparr>file_obj := Some [], log_pos := Some 29, table_map := [7 \<mapsto> ()]\<rparr>",
             THEN conjunct2]
  by (simp add: run_defs rotate_file_def table_map_file_def bit_Suc_0_iff)


text \<open>
  C6 (amended).  When \<open>stop_pos\<close> is set (neither \<^verbatim>\<open>None\<close> nor 0) and the decoded
  packet is a rotate event whose end position has reached it, the rotation is not applied:
  \<open>log_file\<close>, \<open>log_pos\<close> and \<open>table_map\<close> are as before the frame was read.  If
  \<open>start_pos\<close> is set and the packet is not before it, the iteration breaks and
  \<open>fetchone\<close> returns \<^verbatim>\<open>None\<close>.
\<close>

theorem rotate_at_stop_not_applied:
  "read_packet dec s = Inr (Some be, s1) \<and> pk_event be = Some ev
     \<and> pk_event_type be = ROTATE_EVENT
     \<and> stop_pos s = Some E \<and> E \<noteq> 0 \<and> E \<le> pk_log_pos be
   \<longrightarrow> (\<forall>S. start_pos s = Some S \<and> S \<le> pk_log_pos be
          \<longrightarrow> fetch_step dec s = Break s1 \<and> fetchone dec s = Inr (None, s1))
       \<and> (fetch_step dec s = Break s1 \<or> fetch_step dec s = Continue s1
            \<or> fetch_step dec s = Raise TypeError)
       \<and> log_file s1 = log_file s \<and> log_pos s1 = log_pos s
       \<and> table_map s1 = table_map s"
proof (intro impI)
  assume h: "read_packet dec s = Inr (Some be, s1) \<and> pk_event be = Some ev
     \<and> pk_event_type be = ROTATE_EVENT
     \<and> stop_pos s = Some E \<and> E \<noteq> 0 \<and> E \<le> pk_log_pos be"
  then obtain rest c where s1: "s1 = s\<lparr>file_obj := Some rest, ctl := c\<rparr>"
    using read_packet_fields by blast
  from h have fs: "fetch_step dec s = handle_event be s1"
    by (simp add: fetch_step_packet)
  from h s1 have sr: "stop_reached be s1" by (simp add: stop_reached_def)
  have a: "\<forall>S. start_pos s = Some S \<and> S \<le> pk_log_pos be
          \<longrightarrow> fetch_step dec s = Break s1 \<and> fetchone dec s = Inr (None, s1)"
  proof (intro allI impI)
    fix S assume "start_pos s = Some S \<and> S \<le> pk_log_pos be"
    with h s1 sr have "handle_event be s1 = Break s1"
      by (simp add: handle_event_def before_start_def)
    with fs show "fetch_step dec s = Break s1 \<and> fetchone dec s = Inr (None, s1)"
      by (simp add: fetchone_def fetch_loop.simps [of dec s])
  qed
  have b: "fetch_step dec s = Break s1 \<or> fetch_step dec s = Continue s1
            \<or> fetch_step dec s = Raise TypeError"
    using h sr unfolding fs
    by (auto simp: handle_event_def before_start_def split: option.splits bool.splits)
  from a b s1 show "(\<forall>S. start_pos s = Some S \<and> S \<le> pk_log_pos be
          \<longrightarrow> fetch_step dec s = Break s1 \<and> fetchone dec s = Inr (None, s1))
       \<and> (fetch_step dec s = Break s1 \<or> fetch_step dec s = Continue s1
            \<or> fetch_step dec s = Raise TypeError)
       \<and> log_file s1 = log_file s \<and> log_pos s1 = log_pos s
       \<and> table_map s1 = table_map s"
    by simp
qed

theorem rotate_at_stop_not_applied_witness:
  "read_packet sample_decoder
      (sample_reader ((default_args rotate_file)\<lparr>arg_log_pos := Some 4, arg_stop_pos := Some 30\<rparr>))
     = Inr (Some \<lparr>pk_event = Some (Rotate_ev 4 ''b.2''), pk_log_pos = 34,
                  pk_event_type = 4, pk_timestamp = 0\<rparr>,
            (sample_reader ((default_args rotate_file)\<lparr>arg_log_pos := Some 4, arg_stop_pos := Some 30\<rparr>))
              \<lparr>file_obj := Some []\<rparr>)
   \<and> fetch_step sample_decoder
      (sample_reader ((default_args rotate_file)\<lparr>arg_log_pos := Some 4, arg_stop_pos := Some 30\<rparr>))
     = Break ((sample_reader ((default_args rotate_file)\<lparr>arg_log_pos := Some 4, arg_stop_pos := Some 30\<rparr>))
              \<lparr>file_obj := Some []\<rparr>)
   \<and> fetchone sample_decoder
      (sample_reader ((default_args rotate_file)\<lparr>arg_log_pos := Some 4, arg_stop_pos := Some 30\<rparr>))
     = Inr (None, (sample_reader ((default_args rotate_file)\<lparr>arg_log_pos := Some 4, arg_stop_pos := Some 30\<rparr>))
              \<lparr>file_obj := Some []\<rparr>)"
  using rotate_at_stop_not_applied
          [where dec = sample_decoder
             and s = "sample_reader ((default_args rotate_file)\<lparr>arg_log_pos := Some 4, arg_stop_pos := Some 30\<rparr>)"
             and be = "\<lparr>pk_event = Some (Rotate_ev 4 ''b.2''), pk_log_pos = 34,
                  pk_event_type = 4, pk_timestamp = 0\<rparr>"
             and ?s1.0 = "(sample_reader ((default_args rotate_file)\<lparr>arg_log_pos := Some 4, arg_stop_pos := Some 30\<rparr>))
              \<lparr>file_obj := Some []\<rparr>"
             and ev = "Rotate_ev 4 ''b.2''" and E = 30]
  by (simp add: run_defs rotate_file_def bit_Suc_0_iff)

text \<open>
  The claim as stated fails without the condition on \<open>start_pos\<close>: the start test of
  line 195 comes before the stop test of line 198.  With \<open>stop_pos = 30\<close> and the rotate
  event ending at 34, a reader built without \<^verbatim>\<open>log_pos\<close> raises on the comparison, and
  a reader with \<open>start_pos = 100\<close> drops the event and goes on reading.
\<close>

theorem rotate_at_stop_before_start:
  "fetchone sample_decoder
     (sample_reader ((default_args rotate_file)\<lparr>arg_stop_pos := Some 30\<rparr>))
   = Inl TypeError
   \<and> fetch_step sample_decoder
       (sample_reader ((default_args rotate_file)
          \<lparr>arg_log_pos := Some 100, arg_stop_pos := Some 30\<rparr>))
     = Continue ((sample_reader ((default_args rotate_file)
          \<lparr>arg_log_pos := Some 100, arg_stop_pos := Some 30\<rparr>))\<lparr>file_obj := Some []\<rparr>)"
  by (simp add: run_defs rotate_file_def bit_Suc_0_iff fetch_loop.simps fetchone_def)

text \<open>
  C7.  A rotate event that passes the position filters and whose timestamp is below a
  positive \<open>skip_to_timestamp\<close> (timestamp 0 included) is dropped, the loop continues,
  and the state it continues with has the new \<open>log_pos\<close> and \<open>log_file\<close> and an empty
  \<open>table_map\<close>: the timestamp filter runs after the rotation is applied.
\<close>

theorem timestamp_filter_after_rotate:
  "read_packet dec s = Inr (Some be, s1)
     \<and> pk_event be = Some (Rotate_ev position next_binlog)
     \<and> pk_event_type be = ROTATE_EVENT
     \<and> before_start be s1 = Inr False \<and> \<not> stop_reached be s1
     \<and> skip_to_timestamp s = Some T \<and> 0 < T \<and> pk_timestamp be < T
   \<longrightarrow> fetch_step dec s =
         Continue (s1\<lparr>log_pos := Some position, log_file := Some next_binlog,
                      table_map := Map.empty\<rparr>)"
proof (intro impI)
  assume h: "read_packet dec s = Inr (Some be, s1)
     \<and> pk_event be = Some (Rotate_ev position next_binlog)
     \<and> pk_event_type be = ROTATE_EVENT
     \<and> before_start be s1 = Inr False \<and> \<not> stop_reached be s1
     \<and> skip_to_timestamp s = Some T \<and> 0 < T \<and> pk_timestamp be < T"
  then obtain rest c where s1: "s1 = s\<lparr>file_obj := Some rest, ctl := c\<rparr>"
    using read_packet_fields by blast
  from h have fs: "fetch_step dec s = handle_event be s1"
    by (simp add: fetch_step_packet)
  from h s1 have "skipped_by_timestamp be
     (s1\<lparr>log_pos := Some position, log_file := Some next_binlog, table_map := Map.empty\<rparr>)"
    by (simp add: skipped_by_timestamp_def)
  with h show "fetch_step dec s =
         Continue (s1\<lparr>log_pos := Some position, log_file := Some next_binlog,
                      table_map := Map.empty\<rparr>)"
    unfolding fs by (simp add: handle_event_rotate Let_def)
qed


theorem timestamp_filter_after_rotate_witness:
  "read_packet sample_decoder
      (sample_reader ((default_args rotate_file)
         \<lparr>arg_log_pos := Some 4, arg_skip_to_timestamp := Some 1000\<rparr>))
     = Inr (Some \<lparr>pk_event = Some (Rotate_ev 4 ''b.2''), pk_log_pos = 34,
                  pk_event_type = 4, pk_timestamp = 0\<rparr>,
            (sample_reader ((default_args rotate_file)
               \<lparr>arg_log_pos := Some 4, arg_skip_to_timestamp := Some 1000\<rparr>))
              \<lparr>file_obj := Some []\<rparr>)
   \<and> fetch_step sample_decoder
      (sample_reader ((default_args rotate_file)
         \<lparr>arg_log_pos := Some 4, arg_skip_to_timestamp := Some 1000\<rparr>))
     = Continue ((sample_reader ((default_args rotate_file)
               \<lparr>arg_log_pos := Some 4, arg_skip_to_timestamp := Some 1000\<rparr>))
              \<lparr>file_obj := Some [], log_pos := Some 4, log_file := Some ''b.2'',
                table_map := Map.empty\<rparr>)"
  using timestamp_filter_after_rotate
          [where dec = sample_decoder
             and s = "sample_reader ((default_args rotate_file)
                        \<lparr>arg_log_pos := Some 4, arg_skip_to_timestamp := Some 1000\<rparr>)"
             and be = "\<lparr>pk_event = Some (Rotate_ev 4 ''b.2''), pk_log_pos = 34,
                  pk_event_type = 4, pk_timestamp = 0\<rparr>"
             and ?s1.0 = "(sample_reader ((default_args rotate_file)
               \<lparr>arg_log_pos := Some 4, arg_skip_to_timestamp := Some 1000\<rparr>))
              \<lparr>file_obj := Some []\<rparr>"
             and position = 4 and next_binlog = "''b.2''" and T = 1000]
  by (simp add: run_defs rotate_file_def bit_Suc_0_iff)

section \<open>The position window\<close>

lemma fetch_step_config:
  assumes "fetch_step dec s = Continue s' \<or> fetch_step dec s = Return p s'
            \<or> fetch_step dec s = Break s'"
  shows "start_pos s' = start_pos s \<and> stop_pos s' = stop_pos s
         \<and> skip_to_timestamp s' = skip_to_timestamp s
         \<and> allowed_events s' = allowed_events s
         \<and> allowed_events_in_packet s' = allowed_events_in_packet s
         \<and> file_content s' = file_content s"
proof (cases "read_packet dec s")
  case (Inl e)
  with assms show ?thesis by (simp add: fetch_step_def)
next
  case (Inr r)
  obtain x s1 where r: "r = (x, s1)" by (cases r)
  from Inr r obtain rest c where s1: "s1 = s\<lparr>file_obj := Some rest, ctl := c\<rparr>"
    using read_packet_fields by blast
  show ?thesis
  proof (cases x)
    case None
    with assms Inr r s1 show ?thesis by (auto simp: fetch_step_def)
  next
    case (Some b)
    with Inr r have fs: "fetch_step dec s = handle_event b s1"
      by (simp add: fetch_step_def)
    from assms have "handle_event b s1 = Continue s' \<or> handle_event b s1 = Return p s'
            \<or> handle_event b s1 = Break s'"
      unfolding fs .
    from handle_event_config [OF this] handle_event_file [OF this] s1
    show ?thesis by simp
  qed
qed

lemma handle_event_Return:
  "handle_event be s = Return p s' \<Longrightarrow>
     p = be \<and> pk_event be \<noteq> None \<and> before_start be s = Inr False \<and> \<not> stop_reached be s"
  by (auto simp: handle_event_def split: option.splits sum.splits if_splits bool.splits)

lemma fetch_step_Return:
  "fetch_step dec s = Return p s' \<Longrightarrow>
     pk_event p \<noteq> None
     \<and> (\<exists>sp. start_pos s = Some sp \<and> sp \<le> pk_log_pos p)
     \<and> (\<forall>ep. stop_pos s = Some ep \<and> ep \<noteq> 0 \<longrightarrow> pk_log_pos p < ep)"
proof -
  assume h: "fetch_step dec s = Return p s'"
  then obtain be s1 where rp: "read_packet dec s = Inr (Some be, s1)"
    and he: "handle_event be s1 = Return p s'"
    by (auto simp: fetch_step_def split: sum.splits option.splits prod.splits)
  from rp obtain rest c where s1: "s1 = s\<lparr>file_obj := Some rest, ctl := c\<rparr>"
    using read_packet_fields by blast
  from handle_event_Return [OF he] s1 show ?thesis
    by (auto simp: before_start_def stop_reached_def split: option.splits)
qed

lemma fetch_loop_Return:
  "fetch_loop dec s = Inr (Some p, s') \<Longrightarrow>
     pk_event p \<noteq> None
     \<and> (\<exists>sp. start_pos s = Some sp \<and> sp \<le> pk_log_pos p)
     \<and> (\<forall>ep. stop_pos s = Some ep \<and> ep \<noteq> 0 \<longrightarrow> pk_log_pos p < ep)
     \<and> start_pos s' = start_pos s \<and> stop_pos s' = stop_pos s"
proof (induction dec s rule: fetch_loop.induct)
  case (1 dec s)
  show ?case
  proof (cases "fetch_step dec s")
    case (Continue s1)
    with 1 have "pk_event p \<noteq> None
     \<and> (\<exists>sp. start_pos s1 = Some sp \<and> sp \<le> pk_log_pos p)
     \<and> (\<forall>ep. stop_pos s1 = Some ep \<and> ep \<noteq> 0 \<longrightarrow> pk_log_pos p < ep)
     \<and> start_pos s' = start_pos s1 \<and> stop_pos s' = stop_pos s1"
      by (simp add: fetch_loop.simps [of dec s])
    moreover have "start_pos s1 = start_pos s \<and> stop_pos s1 = stop_pos s"
      using fetch_step_config [of dec s s1] Continue by simp
    ultimately show ?thesis by simp
  next
    case (Break s1)
    with 1 show ?thesis by (simp add: fetch_loop.simps [of dec s])
  next
    case (Return q s1)
    with 1 have "q = p" "s1 = s'" by (simp_all add: fetch_loop.simps [of dec s])
    with Return fetch_step_Return [of dec s p s'] fetch_step_config [of dec s s' p]
    show ?thesis by simp
  next
    case (Raise e)
    with 1 show ?thesis by (simp add: fetch_loop.simps [of dec s])
  qed
qed

lemma events_window:
  "start_pos s = Some S \<Longrightarrow> stop_pos s = E \<Longrightarrow> p \<in> set (fst (events dec s)) \<Longrightarrow>
     S \<le> pk_log_pos p \<and> (\<forall>ep. E = Some ep \<and> ep \<noteq> 0 \<longrightarrow> pk_log_pos p < ep)"
proof (induction dec s rule: events.induct)
  case (1 dec s)
  show ?case
  proof (cases "fetch_loop dec s")
    case (Inl e)
    with "1.prems" show ?thesis by (simp add: events.simps [of dec s])
  next
    case (Inr r)
    obtain x s1 where r: "r = (x, s1)" by (cases r)
    show ?thesis
    proof (cases x)
      case None
      with Inr r "1.prems" show ?thesis by (simp add: events.simps [of dec s])
    next
      case (Some q)
      with Inr r have fl: "fetch_loop dec s = Inr (Some q, s1)" by simp
      from fetch_loop_Return [OF fl] "1.prems"
      have q: "S \<le> pk_log_pos q \<and> (\<forall>ep. E = Some ep \<and> ep \<noteq> 0 \<longrightarrow> pk_log_pos q < ep)"
        and s1: "start_pos s1 = Some S" "stop_pos s1 = E"
        by auto
      from "1.prems"(3) fl have "p = q \<or> p \<in> set (fst (events dec s1))"
        by (auto simp: events.simps [of dec s] split: prod.splits)
      then show ?thesis
      proof
        assume "p = q" with q show ?thesis by simp
      next
        assume "p \<in> set (fst (events dec s1))"
        from "1.IH" [OF fl refl refl s1 this] show ?thesis .
      qed
    qed
  qed
qed

text \<open>
  C2 (amended).  With \<open>start_pos = S\<close> and \<open>stop_pos = E\<close>, \<open>E\<close> not 0: every packet
  \<open>fetchone\<close> accepts, and every packet of the iterator, has \<open>S \<le> log_pos < E\<close>; a
  decoded event with \<open>log_pos < S\<close> is dropped and the loop continues; for \<open>S \<le> E\<close>, a
  decoded event with \<open>log_pos \<ge> E\<close> ends the call without being returned.  With
  \<open>stop_pos\<close> 0 or \<^verbatim>\<open>None\<close> there is no stop filter and only \<open>S \<le> log_pos\<close> holds.
\<close>

theorem position_window:
  "(start_pos s = Some S \<and> stop_pos s = Some E \<and> E \<noteq> 0
      \<and> fetch_loop dec s = Inr (Some p, s')
    \<longrightarrow> S \<le> pk_log_pos p \<and> pk_log_pos p < E)
   \<and> (start_pos s = Some S \<and> stop_pos s = Some E \<and> E \<noteq> 0
    \<longrightarrow> (\<forall>q \<in> set (fst (events dec s)). S \<le> pk_log_pos q \<and> pk_log_pos q < E))
   \<and> (start_pos s = Some S \<and> pk_event be \<noteq> None \<and> pk_log_pos be < S
    \<longrightarrow> handle_event be s = Continue s)
   \<and> (start_pos s = Some S \<and> stop_pos s = Some E \<and> E \<noteq> 0 \<and> S \<le> E
      \<and> pk_event be \<noteq> None \<and> E \<le> pk_log_pos be
    \<longrightarrow> handle_event be s = Break s)
   \<and> (start_pos s = Some S \<and> (stop_pos s = Some 0 \<or> stop_pos s = None)
      \<and> fetch_loop dec s = Inr (Some p, s')
    \<longrightarrow> S \<le> pk_log_pos p)"
proof (intro conjI impI)
  assume "start_pos s = Some S \<and> stop_pos s = Some E \<and> E \<noteq> 0
      \<and> fetch_loop dec s = Inr (Some p, s')"
  then show "S \<le> pk_log_pos p" "pk_log_pos p < E"
    using fetch_loop_Return [of dec s p s'] by auto
next
  assume "start_pos s = Some S \<and> stop_pos s = Some E \<and> E \<noteq> 0"
  then show "\<forall>q \<in> set (fst (events dec s)). S \<le> pk_log_pos q \<and> pk_log_pos q < E"
    using events_window [of s S "Some E" _ dec] by auto
next
  assume "start_pos s = Some S \<and> pk_event be \<noteq> None \<and> pk_log_pos be < S"
  then show "handle_event be s = Continue s"
    by (auto simp: handle_event_def before_start_def)
next
  assume "start_pos s = Some S \<and> stop_pos s = Some E \<and> E \<noteq> 0 \<and> S \<le> E
      \<and> pk_event be \<noteq> None \<and> E \<le> pk_log_pos be"
  then show "handle_event be s = Break s"
    by (auto simp: handle_event_def before_start_def stop_reached_def)
next
  assume "start_pos s = Some S \<and> (stop_pos s = Some 0 \<or> stop_pos s = None)
      \<and> fetch_loop dec s = Inr (Some p, s')"
  then show "S \<le> pk_log_pos p"
    using fetch_loop_Return [of dec s p s'] by auto
qed


theorem position_window_witness:
  "fetch_loop sample_decoder
       (sample_reader ((default_args two_query_file)
          \<lparr>arg_log_pos := Some 4, arg_stop_pos := Some 150\<rparr>))
      = Inr (Some \<lparr>pk_event = Some (Plain_ev QueryEvent), pk_log_pos = 100,
                   pk_event_type = 2, pk_timestamp = 5\<rparr>,
             (sample_reader ((default_args two_query_file)
                \<lparr>arg_log_pos := Some 4, arg_stop_pos := Some 150\<rparr>))
               \<lparr>file_obj := Some (drop 23 two_query_file), log_pos := Some 100\<rparr>)
   \<and> (4 :: int) \<le> 100 \<and> (100 :: int) < 150
   \<and> handle_event \<lparr>pk_event = Some (Plain_ev QueryEvent), pk_log_pos = 200,
                   pk_event_type = 2, pk_timestamp = 6\<rparr>
        (sample_reader ((default_args two_query_file)
          \<lparr>arg_log_pos := Some 4, arg_stop_pos := Some 150\<rparr>))
      = Break (sample_reader ((default_args two_query_file)
          \<lparr>arg_log_pos := Some 4, arg_stop_pos := Some 150\<rparr>))"
  using position_window
          [where dec = sample_decoder
             and s = "sample_reader ((default_args two_query_file)
                        \<lparr>arg_log_pos := Some 4, arg_stop_pos := Some 150\<rparr>)"
             and S = 4 and E = 150
             and p = "\<lparr>pk_event = Some (Plain_ev QueryEvent), pk_log_pos = 100,
                   pk_event_type = 2, pk_timestamp = 5\<rparr>"
             and s' = "(sample_reader ((default_args two_query_file)
                \<lparr>arg_log_pos := Some 4, arg_stop_pos := Some 150\<rparr>))
               \<lparr>file_obj := Some (drop 23 two_query_file), log_pos := Some 100\<rparr>"
             and be = "\<lparr>pk_event = Some (Plain_ev QueryEvent), pk_log_pos = 200,
                   pk_event_type = 2, pk_timestamp = 6\<rparr>"]
  by (simp add: run_defs file_defs fetch_loop.simps)


text \<open>
  The claim as stated fails for \<open>E = 0\<close>: with \<open>start_pos = stop_pos = 0\<close> the reader
  returns the event at position 100.
\<close>

theorem stop_zero_emits_beyond:
  "start_pos (sample_reader ((default_args query_file)
        \<lparr>arg_log_pos := Some 0, arg_stop_pos := Some 0\<rparr>)) = Some 0
   \<and> stop_pos (sample_reader ((default_args query_file)
        \<lparr>arg_log_pos := Some 0, arg_stop_pos := Some 0\<rparr>)) = Some 0
   \<and> fetch_loop sample_decoder
       (sample_reader ((default_args query_file)
          \<lparr>arg_log_pos := Some 0, arg_stop_pos := Some 0\<rparr>))
      = Inr (Some \<lparr>pk_event = Some (Plain_ev QueryEvent), pk_log_pos = 100,
                   pk_event_type = 2, pk_timestamp = 5\<rparr>,
             (sample_reader ((default_args query_file)
                \<lparr>arg_log_pos := Some 0, arg_stop_pos := Some 0\<rparr>))
               \<lparr>file_obj := Some [], log_pos := Some 100\<rparr>)
   \<and> \<not> (100 :: int) < 0"
  by (simp add: run_defs file_defs fetch_loop.simps)

section \<open>The end of the file\<close>


lemma read_packet_connect_fails:
  assumes "file_obj s = Some bs \<or> (file_obj s = None \<and> take 4 (file_content s) = expected_magic)"
    and "ctl_connection_settings s" and "\<not> connected_ctl (ctl s)"
    and "pymysql_wrapper s (connects (ctl s)) = Some (code, message)"
  shows "read_packet dec s = Inl (OperationalError code message)"
  using assms
  by (auto simp: read_packet_def connect_to_stream_def connect_ctl_if_needed_def file_read_def)

lemma read_frame_short_body:
  assumes "length h = 19" and "unpack_header h = Inr u"
    and "int (length b) \<le> int (hd_event_size u) - 19"
  shows "read_frame dec s (h @ b) =
     (case dec (0x30 # h @ b) (table_map s) (allowed_events_in_packet s) of
        Inl msg \<Rightarrow> Inl (LibraryError msg)
      | Inr be \<Rightarrow> Inr (Some be, s\<lparr>file_obj := Some []\<rparr>))"
  using assms
  by (auto simp: read_frame_def file_read_def split: sum.splits)



text \<open>
  The condition on the control connection is needed: when it is configured and cannot be
  established, \<open>fetchone\<close> raises the connect error before it reads a header.
\<close>

lemma unreachable_server_raises:
  "fetchone sample_decoder (sample_reader ((default_args expected_magic)
      \<lparr>arg_ctl_connection_settings := True, arg_pymysql_wrapper := failing_wrapper\<rparr>))
   = Inl (OperationalError 2003 ''no server'')"
  by (simp add: run_defs fetch_loop.simps fetchone_def failing_wrapper_def)


section \<open>The declared event size\<close>

lemma unpack_header_error:
  "unpack_header h = Inl e \<Longrightarrow> e = StructError"
  by (simp add: unpack_header_def split: if_splits)

lemma file_read_error:
  "file_read n bs = Inl e \<Longrightarrow> e = ValueError"
  by (simp add: file_read_def split: if_splits)

lemma read_frame_error:
  "read_frame dec s bs = Inl e \<Longrightarrow>
     e = StructError \<or> e = ValueError \<or> (\<exists>msg. e = LibraryError msg)"
  by (auto simp: read_frame_def split: prod.splits if_splits sum.splits
           dest: unpack_header_error file_read_error)

lemma connect_to_stream_error:
  "connect_to_stream s = Inl e \<Longrightarrow> e = BadMagicBytesError \<or> e = ValueError"
  by (auto simp: connect_to_stream_def split: sum.splits prod.splits if_splits
           dest: file_read_error)

lemma connect_ctl_error:
  "connect_ctl_if_needed s = Inl e \<Longrightarrow> \<exists>code message. e = OperationalError code message"
  by (auto simp: connect_ctl_if_needed_def split: if_splits option.splits prod.splits)

lemma read_packet_error:
  "read_packet dec s = Inl e \<Longrightarrow> e \<noteq> EventSizeTooSmallError"
proof
  assume h: "read_packet dec s = Inl e" and e: "e = EventSizeTooSmallError"
  show False
  proof (cases "case file_obj s of None \<Rightarrow> connect_to_stream s | Some bs \<Rightarrow> Inr s")
    case (Inl e1)
    with h have "e1 = e" by (simp add: read_packet_def)
    moreover from Inl have "connect_to_stream s = Inl e1" by (auto split: option.splits)
    ultimately show False using connect_to_stream_error e by blast
  next
    case (Inr s1)
    show False
    proof (cases "connect_ctl_if_needed s1")
      case (Inl e1)
      with h Inr have "e1 = e" by (simp add: read_packet_def)
      with Inl connect_ctl_error e show False by blast
    next
      case r: (Inr s2)
      show False
      proof (cases "file_obj s2")
        case None
        with h Inr r e show False by (simp add: read_packet_def)
      next
        case (Some bs)
        with h Inr r have "read_frame dec s2 bs = Inl e" by (simp add: read_packet_def)
        with read_frame_error e show False by blast
      qed
    qed
  qed
qed

lemma handle_event_error:
  "handle_event be s = Raise e \<Longrightarrow> e = TypeError \<or> e = AttributeError"
  by (auto simp: handle_event_def before_start_def track_position_def register_table_def
           split: option.splits sum.splits if_splits bool.splits event.splits)

lemma fetch_step_no_size_error:
  "fetch_step dec s \<noteq> Raise EventSizeTooSmallError"
proof
  assume h: "fetch_step dec s = Raise EventSizeTooSmallError"
  show False
  proof (cases "read_packet dec s")
    case (Inl e)
    with h have "e = EventSizeTooSmallError" by (simp add: fetch_step_def)
    with read_packet_error [OF Inl] show False by auto
  next
    case (Inr r)
    obtain x s1 where r: "r = (x, s1)" by (cases r)
    show False
    proof (cases x)
      case None
      with h Inr r show False by (simp add: fetch_step_def)
    next
      case (Some be)
      with h Inr r have "handle_event be s1 = Raise EventSizeTooSmallError"
        by (simp add: fetch_step_def)
      from handle_event_error [OF this] show False by auto
    qed
  qed
qed


lemma fetch_loop_no_size_error:
  "fetch_loop dec s \<noteq> Inl EventSizeTooSmallError"
proof (induction dec s rule: fetch_loop.induct)
  case (1 dec s)
  show ?case
  proof (cases "fetch_step dec s")
    case (Continue s1)
    with 1 show ?thesis by (simp add: fetch_loop.simps [of dec s])
  next
    case (Break s1)
    then show ?thesis by (simp add: fetch_loop.simps [of dec s])
  next
    case (Return q s1)
    then show ?thesis by (simp add: fetch_loop.simps [of dec s])
  next
    case (Raise e)
    with fetch_step_no_size_error [of dec s] show ?thesis
      by (simp add: fetch_loop.simps [of dec s])
  qed
qed

text \<open>
  C4.  The source declares \<^verbatim>\<open>EventSizeTooSmallError\<close> and never raises it.  The header
  of \<open>small_size_file\<close> declares event size 18; \<^verbatim>\<open>read(18 - 19)\<close> then reads the rest
  of the file as the body, and \<open>fetchone\<close> returns the event.  The header of
  \<open>zero_size_file\<close> declares event size 0; \<^verbatim>\<open>read(0 - 19)\<close> raises
  \<^verbatim>\<open>ValueError\<close>.  No run of the loop ends in \<open>EventSizeTooSmallError\<close>.
\<close>

theorem small_event_size_accepted:
  "unpack_header (take 19 (drop 4 small_size_file))
     = Inr \<lparr>hd_timestamp = 5, hd_event_type = 2, hd_server_id = 1, hd_event_size = 18,
            hd_log_pos = 23, hd_flags = 0\<rparr>
   \<and> fetchone sample_decoder
       (sample_reader ((default_args small_size_file)\<lparr>arg_log_pos := Some 4\<rparr>))
      = Inr (Some (Plain_ev QueryEvent),
             (sample_reader ((default_args small_size_file)\<lparr>arg_log_pos := Some 4\<rparr>))
               \<lparr>file_obj := Some [], log_pos := Some 23\<rparr>)
   \<and> fetchone sample_decoder
       (sample_reader ((default_args zero_size_file)\<lparr>arg_log_pos := Some 4\<rparr>))
      = Inl ValueError
   \<and> fetch_loop dec s \<noteq> Inl EventSizeTooSmallError"
proof -
  have a: "unpack_header (take 19 (drop 4 small_size_file))
     = Inr \<lparr>hd_timestamp = 5, hd_event_type = 2, hd_server_id = 1, hd_event_size = 18,
            hd_log_pos = 23, hd_flags = 0\<rparr>"
    by (simp add: unpack_header_def small_size_file_def)
  have b: "fetchone sample_decoder
       (sample_reader ((default_args small_size_file)\<lparr>arg_log_pos := Some 4\<rparr>))
      = Inr (Some (Plain_ev QueryEvent),
             (sample_reader ((default_args small_size_file)\<lparr>arg_log_pos := Some 4\<rparr>))
               \<lparr>file_obj := Some [], log_pos := Some 23\<rparr>)"
    by (simp add: run_defs file_defs fetch_loop.simps fetchone_def)
  have c: "fetchone sample_decoder
       (sample_reader ((default_args zero_size_file)\<lparr>arg_log_pos := Some 4\<rparr>))
      = Inl ValueError"
    by (simp add: run_defs file_defs fetch_loop.simps fetchone_def)
  from a b c fetch_loop_no_size_error [of dec s] show ?thesis by blast
qed

section \<open>The start position\<close>

text \<open>
  C8 (amended).  The constructor copies its \<^verbatim>\<open>log_pos\<close> argument into \<open>start_pos\<close>
  and \<open>log_pos\<close>; the argument's default is \<^verbatim>\<open>None\<close>.  For a reader built with
  \<^verbatim>\<open>log_pos=4\<close> the start comparison is defined and is \<open>log_pos < 4\<close>, and a decoded
  event before position 4 is dropped.
\<close>

theorem start_pos_is_log_pos_argument:
  "((BinLogFileReader_init a :: error + 't reader) = Inr s
      \<longrightarrow> start_pos s = arg_log_pos a \<and> log_pos s = arg_log_pos a)
   \<and> arg_log_pos (default_args bs) = None
   \<and> (start_pos s = Some 4 \<longrightarrow> before_start be s = Inr (pk_log_pos be < 4))
   \<and> (start_pos s = Some 4 \<and> pk_event be \<noteq> None \<and> pk_log_pos be < 4
      \<longrightarrow> handle_event be s = Continue s)"
proof (intro conjI impI)
  assume "(BinLogFileReader_init a :: error + 't reader) = Inr s"
  then show "start_pos s = arg_log_pos a" "log_pos s = arg_log_pos a"
    by (auto simp: BinLogFileReader_init_def split: sum.splits)
next
  show "arg_log_pos (default_args bs) = None" by (simp add: default_args_def)
next
  assume "start_pos s = Some 4"
  then show "before_start be s = Inr (pk_log_pos be < 4)" by (simp add: before_start_def)
next
  assume "start_pos s = Some 4 \<and> pk_event be \<noteq> None \<and> pk_log_pos be < 4"
  then show "handle_event be s = Continue s"
    by (auto simp: handle_event_def before_start_def)
qed

theorem start_pos_is_log_pos_argument_witness:
  "(BinLogFileReader_init ((default_args query_file)\<lparr>arg_log_pos := Some 4\<rparr>)
       :: error + unit reader)
     = Inr (sample_reader ((default_args query_file)\<lparr>arg_log_pos := Some 4\<rparr>))
   \<and> start_pos (sample_reader ((default_args query_file)\<lparr>arg_log_pos := Some 4\<rparr>)) = Some 4
   \<and> handle_event \<lparr>pk_event = Some (Plain_ev QueryEvent), pk_log_pos = 3,
                   pk_event_type = 2, pk_timestamp = 5\<rparr>
        (sample_reader ((default_args query_file)\<lparr>arg_log_pos := Some 4\<rparr>))
      = Continue (sample_reader ((default_args query_file)\<lparr>arg_log_pos := Some 4\<rparr>))"
  using start_pos_is_log_pos_argument
          [where a = "(default_args query_file)\<lparr>arg_log_pos := Some 4\<rparr>"
             and s = "sample_reader ((default_args query_file)\<lparr>arg_log_pos := Some 4\<rparr>)"
             and be = "\<lparr>pk_event = Some (Plain_ev QueryEvent), pk_log_pos = 3,
                   pk_event_type = 2, pk_timestamp = 5\<rparr>"]
  by (simp add: sample_reader_def BinLogFileReader_init_def allowed_event_list_def
        default_args_def initial_events_def)

text \<open>
  The claim as stated fails: a reader built without \<^verbatim>\<open>log_pos\<close> has \<open>start_pos\<close>
  \<^verbatim>\<open>None\<close>, and the comparison raises on the first decoded event.
\<close>

theorem default_start_pos_is_None:
  "start_pos (sample_reader (default_args query_file)) = None
   \<and> fetchone sample_decoder (sample_reader (default_args query_file)) = Inl TypeError"
  by (simp add: run_defs file_defs fetch_loop.simps fetchone_def)


section \<open>Retrying the column lookup\<close>

lemma retry_after_expected_code:
  assumes "attempt srv c = (Inl (OperationalError code message), c1)"
    and "code = 2013 \<or> code = 2006"
  shows "get_table_information srv c =
     (case attempt srv (c1\<lparr>connected_ctl := False\<rparr>) of
        (Inr rows, c2) \<Rightarrow> (Inr (Some rows), c2)
      | (Inl (OperationalError code2 message2), c2) \<Rightarrow>
          if code2 = 2013 \<or> code2 = 2006 then (Inr None, c2\<lparr>connected_ctl := False\<rparr>)
          else (Inl (OperationalError code2 message2), c2)
      | (Inl err, c2) \<Rightarrow> (Inl err, c2))"
  using assms
  by (auto simp: get_table_information_def MYSQL_EXPECTED_ERROR_CODES_def
      split: prod.splits sum.splits error.splits)

lemma other_code_propagates:
  assumes "attempt srv c = (Inl (OperationalError code message), c1)"
    and "code \<noteq> 2013" and "code \<noteq> 2006"
  shows "get_table_information srv c = (Inl (OperationalError code message), c1)"
  using assms
  by (simp add: get_table_information_def MYSQL_EXPECTED_ERROR_CODES_def)

lemma first_attempt_succeeds:
  assumes "attempt srv c = (Inr rows, c1)"
  shows "get_table_information srv c = (Inr (Some rows), c1)"
  using assms by (simp add: get_table_information_def)

text \<open>
  C5.  When both attempts of the column lookup fail with code 2013, the resolver raises
  nothing: it returns \<^verbatim>\<open>None\<close> with the connection marked closed.  When only the
  first attempt fails, the resolver reconnects and the second attempt's rows are returned.
\<close>

theorem second_transient_failure_returns_None:
  "get_table_information lost_server \<lparr>connected_ctl = False, connects = 0, queries = 0\<rparr>
     = (Inr None, \<lparr>connected_ctl = False, connects = 2, queries = 2\<rparr>)
   \<and> get_table_information flaky_server \<lparr>connected_ctl = False, connects = 0, queries = 0\<rparr>
     = (Inr (Some [''id'', ''name'']), \<lparr>connected_ctl = True, connects = 2, queries = 2\<rparr>)"
  by (simp add: get_table_information_def attempt_def connect_to_ctl_def lost_server_def
        flaky_server_def MYSQL_EXPECTED_ERROR_CODES_def)

section \<open>Filtering events that are not implemented\<close>

text \<open>
  The reader that differs from \<open>s\<close> in having \<open>NotImplementedEvent\<close> removed from both
  allowed sets, and in its current position.
\<close>

definition twin :: "int option \<Rightarrow> 't reader \<Rightarrow> 't reader" where
  "twin lp s =
     s\<lparr>log_pos := lp,
       allowed_events := allowed_events s - {NotImplementedEvent},
       allowed_events_in_packet := allowed_events_in_packet s - {NotImplementedEvent}\<rparr>"

lemma allowed_event_list_flag:
  "allowed_event_list only ign True =
     (case allowed_event_list only ign False of
        Inl err \<Rightarrow> Inl err
      | Inr A \<Rightarrow> Inr (A - {NotImplementedEvent}))"
  by (simp add: allowed_event_list_def split: sum.splits option.splits)

lemma init_flag:
  assumes "(BinLogFileReader_init (a\<lparr>arg_filter_non_implemented_events := False\<rparr>)
              :: error + 't reader) = Inr sf"
  shows "(BinLogFileReader_init (a\<lparr>arg_filter_non_implemented_events := True\<rparr>)
              :: error + 't reader) = Inr (twin (log_pos sf) sf)"
proof -
  from assms obtain A where A: "allowed_event_list (arg_only_events a) (arg_ignored_events a) False = Inr A"
    by (auto simp: BinLogFileReader_init_def split: sum.splits)
  from assms A have sf: "sf = \<lparr>file_content = arg_file a,
               file_obj = None,
               ctl_connection_settings = arg_ctl_connection_settings a,
               pymysql_wrapper = arg_pymysql_wrapper a,
               ctl = checksum_probe (arg_ctl_connection_settings a) (arg_pymysql_wrapper a),
               table_map = Map.empty,
               log_pos = arg_log_pos a,
               start_pos = arg_log_pos a,
               stop_pos = arg_stop_pos a,
               log_file = arg_log_file a,
               skip_to_timestamp = arg_skip_to_timestamp a,
               allowed_events = A,
               allowed_events_in_packet = {TableMapEvent, RotateEvent} \<union> A\<rparr>"
    by (simp add: BinLogFileReader_init_def)
  show ?thesis
    unfolding sf
    by (simp add: BinLogFileReader_init_def allowed_event_list_flag A twin_def) auto
qed

lemma twin_fields:
  "file_content (twin lp s) = file_content s"
  "file_obj (twin lp s) = file_obj s"
  "table_map (twin lp s) = table_map s"
  "start_pos (twin lp s) = start_pos s"
  "stop_pos (twin lp s) = stop_pos s"
  "skip_to_timestamp (twin lp s) = skip_to_timestamp s"
  "log_pos (twin lp s) = lp"
  "allowed_events (twin lp s) = allowed_events s - {NotImplementedEvent}"
  "allowed_events_in_packet (twin lp s) = allowed_events_in_packet s - {NotImplementedEvent}"
  "ctl (twin lp s) = ctl s"
  "ctl_connection_settings (twin lp s) = ctl_connection_settings s"
  "pymysql_wrapper (twin lp s) = pymysql_wrapper s"
  by (simp_all add: twin_def)

lemma twin_file_obj: "(twin lp s)\<lparr>file_obj := f\<rparr> = twin lp (s\<lparr>file_obj := f\<rparr>)"
  by (simp add: twin_def)

lemma twin_ctl: "(twin lp s)\<lparr>ctl := c\<rparr> = twin lp (s\<lparr>ctl := c\<rparr>)"
  by (simp add: twin_def)

lemma connect_to_stream_twin:
  "connect_to_stream (twin lp s) =
     (case connect_to_stream s of Inl err \<Rightarrow> Inl err | Inr s1 \<Rightarrow> Inr (twin lp s1))"
  by (simp add: connect_to_stream_def twin_fields twin_file_obj
        split: sum.splits prod.splits)

lemma connect_ctl_twin:
  "connect_ctl_if_needed (twin lp s) =
     (case connect_ctl_if_needed s of Inl err \<Rightarrow> Inl err | Inr s1 \<Rightarrow> Inr (twin lp s1))"
  by (simp add: connect_ctl_if_needed_def twin_fields twin_ctl
        split: option.splits prod.splits)

lemma read_frame_twin:
  assumes "packet_level_filter dec"
  shows "read_frame dec (twin lp s) bs =
     (case read_frame dec s bs of
        Inl err \<Rightarrow> Inl err
      | Inr (x, s1) \<Rightarrow> Inr (map_option strip_not_implemented x, twin lp s1))"
proof -
  from assms have c: "\<And>pkt tm A. dec pkt tm (A - {NotImplementedEvent}) =
        (case dec pkt tm A of Inl msg \<Rightarrow> Inl msg | Inr be \<Rightarrow> Inr (strip_not_implemented be))"
    by (simp add: packet_level_filter_def)
  show ?thesis
    by (simp add: read_frame_def twin_fields twin_file_obj c
          split: prod.splits sum.splits)
qed

lemma read_packet_twin:
  assumes "packet_level_filter dec"
  shows "read_packet dec (twin lp s) =
     (case read_packet dec s of
        Inl err \<Rightarrow> Inl err
      | Inr (x, s1) \<Rightarrow> Inr (map_option strip_not_implemented x, twin lp s1))"
proof (cases "case file_obj s of None \<Rightarrow> connect_to_stream s | Some bs \<Rightarrow> Inr s")
  case (Inl err)
  then have "(case file_obj (twin lp s) of None \<Rightarrow> connect_to_stream (twin lp s)
               | Some bs \<Rightarrow> Inr (twin lp s)) = Inl err"
    by (simp add: twin_fields connect_to_stream_twin split: option.splits)
  with Inl show ?thesis by (simp add: read_packet_def)
next
  case (Inr s1)
  then have a: "(case file_obj (twin lp s) of None \<Rightarrow> connect_to_stream (twin lp s)
               | Some bs \<Rightarrow> Inr (twin lp s)) = Inr (twin lp s1)"
    by (simp add: twin_fields connect_to_stream_twin split: option.splits)
  show ?thesis
  proof (cases "connect_ctl_if_needed s1")
    case (Inl err)
    with Inr a show ?thesis by (simp add: read_packet_def connect_ctl_twin)
  next
    case r: (Inr s2)
    with Inr a show ?thesis
      by (simp add: read_packet_def connect_ctl_twin twin_fields read_frame_twin [OF assms]
            split: option.splits)
  qed
qed


lemma handle_event_twin_implemented:
  assumes "\<not> is_not_implemented be"
  shows "(handle_event be s = Raise e \<longrightarrow> handle_event be (twin lp s) = Raise e)
       \<and> (handle_event be s = Break s' \<longrightarrow> handle_event be (twin lp s) = Break (twin lp s'))
       \<and> (handle_event be s = Continue s'
            \<longrightarrow> (\<exists>lp'. handle_event be (twin lp s) = Continue (twin lp' s')))
       \<and> (handle_event be s = Return p s'
            \<longrightarrow> (\<exists>lp'. handle_event be (twin lp s) = Return p (twin lp' s')))"
proof (cases "pk_event be")
  case None
  then have "handle_event be s = Continue s" "handle_event be (twin lp s) = Continue (twin lp s)"
    by (simp_all add: handle_event_def)
  then show ?thesis by auto
next
  case (Some ev)
  with assms have ev: "class_of ev \<noteq> NotImplementedEvent"
    by (simp add: is_not_implemented_def)
  show ?thesis
  proof (cases "before_start be s")
    case (Inl err)
    then have "before_start be (twin lp s) = Inl err"
      by (simp add: before_start_def twin_fields)
    with Some Inl have "handle_event be s = Raise err" "handle_event be (twin lp s) = Raise err"
      by (simp_all add: handle_event_def)
    then show ?thesis by auto
  next
    case (Inr b)
    then have bs: "before_start be (twin lp s) = Inr b"
      by (simp add: before_start_def twin_fields)
    show ?thesis
    proof (cases b)
      case True
      with Some Inr bs
      have "handle_event be s = Continue s" "handle_event be (twin lp s) = Continue (twin lp s)"
        by (simp_all add: handle_event_def)
      then show ?thesis by auto
    next
      case False
      have sr: "stop_reached be (twin lp s) = stop_reached be s"
        by (simp add: stop_reached_def twin_fields)
      show ?thesis
      proof (cases "stop_reached be s")
        case True
        with Some Inr bs False sr
        have "handle_event be s = Break s" "handle_event be (twin lp s) = Break (twin lp s)"
          by (simp_all add: handle_event_def)
        then show ?thesis by auto
      next
        case nstop: False
        show ?thesis
        proof (cases "track_position be ev s")
          case (Inl err)
          then have "track_position be ev (twin lp s) = Inl err"
            by (auto simp: track_position_def split: if_splits event.splits)
          with Some Inr bs False sr nstop Inl
          have "handle_event be s = Raise err" "handle_event be (twin lp s) = Raise err"
            by (simp_all add: handle_event_def)
          then show ?thesis by auto
        next
          case tp: (Inr s1)
          define lp1 where
            "lp1 = (if pk_event_type be = ROTATE_EVENT \<or> pk_log_pos be \<noteq> 0
                    then log_pos s1 else lp)"
          from tp have t1: "track_position be ev (twin lp s) = Inr (twin lp1 s1)"
            by (auto simp: track_position_def twin_def lp1_def split: if_splits event.splits)
          have sk: "skipped_by_timestamp be (twin lp1 s1) = skipped_by_timestamp be s1"
            by (simp add: skipped_by_timestamp_def twin_fields)
          show ?thesis
          proof (cases "skipped_by_timestamp be s1")
            case True
            with Some Inr bs False sr nstop tp t1 sk
            have "handle_event be s = Continue s1"
              "handle_event be (twin lp s) = Continue (twin lp1 s1)"
              by (simp_all add: handle_event_def)
            then show ?thesis by auto
          next
            case nskip: False
            show ?thesis
            proof (cases "register_table be ev s1")
              case (Inl err)
              then have "register_table be ev (twin lp1 s1) = Inl err"
                by (auto simp: register_table_def split: if_splits event.splits)
              with Some Inr bs False sr nstop tp t1 sk nskip Inl
              have "handle_event be s = Raise err" "handle_event be (twin lp s) = Raise err"
                by (simp_all add: handle_event_def)
              then show ?thesis by auto
            next
              case r: (Inr s2)
              then have t2: "register_table be ev (twin lp1 s1) = Inr (twin lp1 s2)"
                by (auto simp: register_table_def twin_def split: if_splits event.splits)
              from ev have al: "class_of ev \<notin> allowed_events (twin lp1 s2)
                     \<longleftrightarrow> class_of ev \<notin> allowed_events s2"
                by (simp add: twin_fields)
              show ?thesis
              proof (cases "class_of ev \<in> allowed_events s2")
                case True
                with Some Inr bs False sr nstop tp t1 sk nskip r t2 al
                have "handle_event be s = Return be s2"
                  "handle_event be (twin lp s) = Return be (twin lp1 s2)"
                  by (simp_all add: handle_event_def)
                then show ?thesis by auto
              next
                case nal: False
                with Some Inr bs False sr nstop tp t1 sk nskip r t2 al
                have "handle_event be s = Continue s2"
                  "handle_event be (twin lp s) = Continue (twin lp1 s2)"
                  by (simp_all add: handle_event_def)
                then show ?thesis by auto
              qed
            qed
          qed
        qed
      qed
    qed
  qed
qed


lemma twin_log_pos: "twin lp (s\<lparr>log_pos := x\<rparr>) = twin lp s"
  by (simp add: twin_def)

lemma handle_event_not_implemented:
  assumes "is_not_implemented be"
    and "pk_event_type be \<noteq> ROTATE_EVENT" and "pk_event_type be \<noteq> TABLE_MAP_EVENT"
    and "start_pos s = Some S"
  shows "(\<exists>s'. (handle_event be s = Continue s' \<or> handle_event be s = Return be s')
              \<and> twin lp s' = twin lp s)
         \<or> (handle_event be s = Break s \<and> stop_reached be s)"
proof -
  from assms(1) obtain ev where ev: "pk_event be = Some ev"
    by (auto simp: is_not_implemented_def split: option.splits)
  from assms(4) have bs: "before_start be s = Inr (pk_log_pos be < S)"
    by (simp add: before_start_def)
  show ?thesis
  proof (cases "pk_log_pos be < S")
    case True
    with ev bs have "handle_event be s = Continue s" by (simp add: handle_event_def)
    then show ?thesis by auto
  next
    case False
    show ?thesis
    proof (cases "stop_reached be s")
      case True
      with ev bs False have "handle_event be s = Break s" by (simp add: handle_event_def)
      with True show ?thesis by simp
    next
      case ns: False
      define s1 where "s1 = (if pk_log_pos be \<noteq> 0 then s\<lparr>log_pos := Some (pk_log_pos be)\<rparr> else s)"
      have tp: "track_position be ev s = Inr s1"
        using assms(2) by (simp add: track_position_def s1_def)
      have rt: "register_table be ev s1 = Inr s1"
        using assms(3) by (simp add: register_table_def)
      have tw: "twin lp s1 = twin lp s" by (simp add: s1_def twin_log_pos)
      from ev bs False ns tp rt
      have "handle_event be s = Continue s1 \<or> handle_event be s = Return be s1"
        by (simp add: handle_event_def)
      with tw show ?thesis by auto
    qed
  qed
qed

lemma handle_event_stripped:
  "is_not_implemented be \<Longrightarrow> handle_event (strip_not_implemented be) t = Continue t"
  by (simp add: strip_not_implemented_def handle_event_def)

lemma read_frame_decoded:
  "read_frame dec s bs = Inr (Some be, s1) \<Longrightarrow>
     \<exists>pkt. dec pkt (table_map s) (allowed_events_in_packet s) = Inr be"
  by (auto simp: read_frame_def split: prod.splits if_splits sum.splits)

lemma read_packet_decoded:
  "read_packet dec s = Inr (Some be, s1) \<Longrightarrow> \<exists>pkt tm A. dec pkt tm A = Inr be"
  by (auto simp: read_packet_def connect_to_stream_def
           split: option.splits sum.splits prod.splits if_splits dest!: read_frame_decoded)

lemma fetch_step_twin:
  assumes c: "packet_level_filter dec"
    and sp: "start_pos s = Some S"
  shows "(fetch_step dec s = Raise e \<longrightarrow> fetch_step dec (twin lp s) = Raise e)
       \<and> (fetch_step dec s = Break s'
            \<longrightarrow> (\<exists>t. fetch_step dec (twin lp s) = Break t)
                \<or> (\<exists>bf. read_packet dec s = Inr (Some bf, s') \<and> stop_reached bf s'
                      \<and> fetch_step dec (twin lp s) = Continue (twin lp s')))
       \<and> (fetch_step dec s = Continue s'
            \<longrightarrow> (\<exists>lp'. fetch_step dec (twin lp s) = Continue (twin lp' s')))
       \<and> (fetch_step dec s = Return p s'
            \<longrightarrow> (\<exists>lp'. fetch_step dec (twin lp s) =
                    (if is_not_implemented p then Continue (twin lp' s')
                     else Return p (twin lp' s'))))"
proof (cases "read_packet dec s")
  case (Inl err)
  then have "fetch_step dec s = Raise err" "fetch_step dec (twin lp s) = Raise err"
    by (simp_all add: fetch_step_def read_packet_twin [OF c])
  then show ?thesis by auto
next
  case (Inr r)
  obtain x s1 where r: "r = (x, s1)" by (cases r)
  from Inr r obtain rest c' where s1: "s1 = s\<lparr>file_obj := Some rest, ctl := c'\<rparr>"
    using read_packet_fields by blast
  show ?thesis
  proof (cases x)
    case None
    with Inr r have "fetch_step dec s = Break s1" "fetch_step dec (twin lp s) = Break (twin lp s1)"
      by (simp_all add: fetch_step_def read_packet_twin [OF c])
    then show ?thesis by auto
  next
    case (Some bf)
    with Inr r have fs: "fetch_step dec s = handle_event bf s1"
      and ft: "fetch_step dec (twin lp s) = handle_event (strip_not_implemented bf) (twin lp s1)"
      by (simp_all add: fetch_step_def read_packet_twin [OF c])
    show ?thesis
    proof (cases "is_not_implemented bf")
      case True
      from Inr r Some obtain pkt tm A where "dec pkt tm A = Inr bf"
        using read_packet_decoded by blast
      with c True have ty: "pk_event_type bf \<noteq> ROTATE_EVENT" "pk_event_type bf \<noteq> TABLE_MAP_EVENT"
        unfolding packet_level_filter_def by blast+
      from sp s1 have sp1: "start_pos s1 = Some S" by simp
      have st: "handle_event (strip_not_implemented bf) t = Continue t" for t
        by (rule handle_event_stripped [OF True])
      from handle_event_not_implemented [OF True ty sp1, of lp]
      show ?thesis
      proof
        assume "\<exists>s2. (handle_event bf s1 = Continue s2 \<or> handle_event bf s1 = Return bf s2)
                  \<and> twin lp s2 = twin lp s1"
        then obtain s2 where h: "handle_event bf s1 = Continue s2 \<or> handle_event bf s1 = Return bf s2"
          and tw: "twin lp s2 = twin lp s1" by blast
        have "fetch_step dec (twin lp s) = Continue (twin lp s2)"
          unfolding ft tw by (rule st)
        with h True show ?thesis unfolding fs by auto
      next
        assume h: "handle_event bf s1 = Break s1 \<and> stop_reached bf s1"
        have "fetch_step dec (twin lp s) = Continue (twin lp s1)"
          unfolding ft by (rule st)
        with h Inr r Some show ?thesis unfolding fs by auto
      qed
    next
      case False
      then have st: "strip_not_implemented bf = bf" by (simp add: strip_not_implemented_def)
      have "handle_event bf s1 = Return p s' \<Longrightarrow> p = bf"
        using handle_event_Return by blast
      with False handle_event_twin_implemented [OF False, of s1 e lp s' p]
      show ?thesis unfolding fs ft st by auto
    qed
  qed
qed

lemma events_step:
  "events dec s =
     (case fetch_step dec s of
        Continue s' \<Rightarrow> events dec s'
      | Break s' \<Rightarrow> ([], None)
      | Return p s' \<Rightarrow> (p # fst (events dec s'), snd (events dec s'))
      | Raise e \<Rightarrow> ([], Some e))"
proof (cases "fetch_step dec s")
  case (Continue s1)
  then have "fetch_loop dec s = fetch_loop dec s1" by (simp add: fetch_loop.simps [of dec s])
  then have "events dec s = events dec s1"
    by (simp add: events.simps [of dec s] events.simps [of dec s1])
  with Continue show ?thesis by simp
next
  case (Break s1)
  then show ?thesis by (simp add: events.simps [of dec s] fetch_loop.simps [of dec s])
next
  case (Return q s1)
  then show ?thesis
    by (simp add: events.simps [of dec s] fetch_loop.simps [of dec s] split: prod.splits)
next
  case (Raise e)
  then show ?thesis by (simp add: events.simps [of dec s] fetch_loop.simps [of dec s])
qed

lemma events_start_None:
  "start_pos s = None \<Longrightarrow> fst (events dec s) = []"
  using fetch_loop_Return [of dec s]
  by (auto simp: events.simps [of dec s] split: sum.splits option.splits prod.splits)


lemma read_frame_positions:
  assumes "header_position dec" and "read_frame dec s bs = Inr (Some be, s1)"
  shows "\<exists>p rest. end_positions bs = p # end_positions rest \<and> file_obj s1 = Some rest
           \<and> pk_log_pos be = int p"
proof -
  from assms(2) obtain header rest where a: "file_read 19 bs = Inr (header, rest)"
    and ne: "header \<noteq> []"
    by (auto simp: read_frame_def split: sum.splits prod.splits if_splits)
  with assms(2) obtain u where u: "unpack_header header = Inr u"
    by (auto simp: read_frame_def split: sum.splits)
  with assms(2) a ne obtain body rest' where
    b: "file_read (int (hd_event_size u) - 19) rest = Inr (body, rest')"
    by (auto simp: read_frame_def split: sum.splits prod.splits)
  with assms(2) a ne u have d: "dec (0x30 # header @ body) (table_map s)
        (allowed_events_in_packet s) = Inr be" and s1: "s1 = s\<lparr>file_obj := Some rest'\<rparr>"
    by (auto simp: read_frame_def split: sum.splits)
  from u have len: "length header = 19" and lp: "hd_log_pos u = le_uint (take 4 (drop 13 header))"
    by (auto simp: unpack_header_def split: if_splits)
  from assms(1) d have "pk_log_pos be = int (le_uint (take 4 (drop 14 (0x30 # header @ body))))"
    unfolding header_position_def by blast
  with len lp have p: "pk_log_pos be = int (hd_log_pos u)" by simp
  from a ne u b have "end_positions bs = hd_log_pos u # end_positions rest'"
    by (simp add: end_positions.simps [of bs])
  with s1 p show ?thesis by simp
qed

lemma read_packet_positions:
  assumes "header_position dec" and "read_packet dec s = Inr (Some be, s1)"
  shows "\<exists>p. end_positions (pending s) = p # end_positions (pending s1)
           \<and> pk_log_pos be = int p"
proof -
  from assms(2) obtain s0 c bs where
    a: "s0 = s \<or> (file_obj s = None \<and> connect_to_stream s = Inr s0)"
    and f: "file_obj s0 = Some bs"
    and r: "read_frame dec (s0\<lparr>ctl := c\<rparr>) bs = Inr (Some be, s1)"
    by (rule read_packet_cases)
  have "pending s = bs"
  proof (cases "s0 = s")
    case True
    with f show ?thesis by (simp add: pending_def)
  next
    case False
    with a have "file_obj s = None" "s0 = s\<lparr>file_obj := Some (drop 4 (file_content s))\<rparr>"
      using connect_to_stream_fields by blast+
    with f show ?thesis by (simp add: pending_def)
  qed
  with read_frame_positions [OF assms(1) r] show ?thesis
    by (auto simp: pending_def)
qed

lemma handle_event_pending:
  "handle_event be s = Continue s' \<or> handle_event be s = Return p s' \<or> handle_event be s = Break s'
     \<Longrightarrow> pending s' = pending s"
  using handle_event_file [of be s s' p] by (auto simp: pending_def split: option.splits)

lemma fetch_step_positions:
  assumes "header_position dec"
    and "fetch_step dec s = Continue s' \<or> fetch_step dec s = Return q s'"
  shows "\<exists>p. end_positions (pending s) = p # end_positions (pending s')
           \<and> (fetch_step dec s = Return q s' \<longrightarrow> pk_log_pos q = int p)"
proof -
  from assms(2) obtain be s1 where rp: "read_packet dec s = Inr (Some be, s1)"
    and he: "handle_event be s1 = Continue s' \<or> handle_event be s1 = Return q s'"
    by (auto simp: fetch_step_def split: sum.splits option.splits prod.splits)
  from he have pe: "pending s' = pending s1"
    using handle_event_pending [of be s1 s' q] by auto
  from rp have fs: "fetch_step dec s = handle_event be s1" by (simp add: fetch_step_def)
  have "fetch_step dec s = Return q s' \<Longrightarrow> q = be"
    unfolding fs using handle_event_Return by blast
  with read_packet_positions [OF assms(1) rp] pe show ?thesis by auto
qed

lemma events_quiet_after_stop:
  assumes hp: "header_position dec"
  shows "stop_pos s = Some E \<Longrightarrow> E \<noteq> 0 \<Longrightarrow>
     \<forall>p \<in> set (end_positions (pending s)). E \<le> int p \<Longrightarrow> fst (events dec s) = []"
proof (induction "unread s" arbitrary: s rule: less_induct)
  case less
  show ?case
  proof (cases "fetch_step dec s")
    case (Raise e)
    then show ?thesis by (simp add: events_step [of dec s])
  next
    case (Break s1)
    then show ?thesis by (simp add: events_step [of dec s])
  next
    case (Continue s1)
    from fetch_step_positions [OF hp, of s s1] Continue obtain p
      where p: "end_positions (pending s) = p # end_positions (pending s1)" by auto
    with less.prems(3) have a: "\<forall>p \<in> set (end_positions (pending s1)). E \<le> int p" by simp
    from Continue have lt: "unread s1 < unread s" by (rule fetch_step_Continue_less)
    from fetch_step_config [of dec s s1] Continue less.prems(1)
    have "stop_pos s1 = Some E" by simp
    from less.hyps [OF lt this less.prems(2) a] Continue show ?thesis
      by (simp add: events_step [of dec s])
  next
    case (Return q s1)
    from fetch_step_positions [OF hp, of s s1 q] Return obtain p
      where p: "end_positions (pending s) = p # end_positions (pending s1)"
        and q: "pk_log_pos q = int p" by auto
    with less.prems(3) have "E \<le> pk_log_pos q" by simp
    moreover from fetch_step_Return [OF Return] less.prems(1,2) have "pk_log_pos q < E" by simp
    ultimately show ?thesis by simp
  qed
qed


lemma pending_twin: "pending (twin lp s) = pending s"
  by (simp add: pending_def twin_fields split: option.splits)

lemma events_twin:
  assumes c: "packet_level_filter dec"
  shows "start_pos s = Some S \<Longrightarrow>
     (stop_pos s = None \<or> stop_pos s = Some 0)
       \<or> (header_position dec \<and> sorted (end_positions (pending s))) \<Longrightarrow>
     fst (events dec (twin lp s))
       = filter (\<lambda>p. \<not> is_not_implemented p) (fst (events dec s))"
proof (induction "unread s" arbitrary: s lp rule: less_induct)
  case less
  note sp = less.prems(1) and cond = less.prems(2)
  note sim = fetch_step_twin [OF c sp]
  have next_cond: "(stop_pos s1 = None \<or> stop_pos s1 = Some 0)
       \<or> (header_position dec \<and> sorted (end_positions (pending s1)))"
    if "fetch_step dec s = Continue s1 \<or> fetch_step dec s = Return q s1" for s1 q
  proof -
    from fetch_step_config [of dec s s1 q] that have e: "stop_pos s1 = stop_pos s" by auto
    from cond show ?thesis
    proof
      assume "stop_pos s = None \<or> stop_pos s = Some 0"
      with e show ?thesis by simp
    next
      assume h: "header_position dec \<and> sorted (end_positions (pending s))"
      with fetch_step_positions [of dec s s1 q] that obtain p
        where "end_positions (pending s) = p # end_positions (pending s1)" by auto
      with h show ?thesis by simp
    qed
  qed
  show ?case
  proof (cases "fetch_step dec s")
    case (Raise e)
    with sim [of e lp] have "fetch_step dec (twin lp s) = Raise e" by simp
    with Raise show ?thesis
      by (simp add: events_step [of dec s] events_step [of dec "twin lp s"])
  next
    case (Break s1)
    from sim [of _ lp s1] Break
    have "(\<exists>t. fetch_step dec (twin lp s) = Break t)
                \<or> (\<exists>bf. read_packet dec s = Inr (Some bf, s1) \<and> stop_reached bf s1
                      \<and> fetch_step dec (twin lp s) = Continue (twin lp s1))" by simp
    then show ?thesis
    proof
      assume "\<exists>t. fetch_step dec (twin lp s) = Break t"
      with Break show ?thesis
        by (auto simp: events_step [of dec s] events_step [of dec "twin lp s"])
    next
      assume "\<exists>bf. read_packet dec s = Inr (Some bf, s1) \<and> stop_reached bf s1
                      \<and> fetch_step dec (twin lp s) = Continue (twin lp s1)"
      then obtain bf where rp: "read_packet dec s = Inr (Some bf, s1)"
        and sr: "stop_reached bf s1"
        and t: "fetch_step dec (twin lp s) = Continue (twin lp s1)" by blast
      from sr obtain E where E: "stop_pos s1 = Some E" "E \<noteq> 0" "E \<le> pk_log_pos bf"
        by (auto simp: stop_reached_def split: option.splits)
      from rp obtain rest c' where "s1 = s\<lparr>file_obj := Some rest, ctl := c'\<rparr>"
        using read_packet_fields by blast
      with E have "stop_pos s = Some E" by simp
      with cond E have hp: "header_position dec"
        and so: "sorted (end_positions (pending s))" by auto
      from read_packet_positions [OF hp rp] obtain p
        where p: "end_positions (pending s) = p # end_positions (pending s1)"
          and bp: "pk_log_pos bf = int p" by blast
      from so p E bp have "\<forall>x \<in> set (end_positions (pending s1)). E \<le> int x"
        by auto
      then have "\<forall>x \<in> set (end_positions (pending (twin lp s1))). E \<le> int x"
        by (simp add: pending_twin)
      moreover from E have "stop_pos (twin lp s1) = Some E" by (simp add: twin_fields)
      ultimately have "fst (events dec (twin lp s1)) = []"
        using events_quiet_after_stop [OF hp _ E(2)] by blast
      with Break t show ?thesis
        by (simp add: events_step [of dec s] events_step [of dec "twin lp s"])
    qed
  next
    case (Continue s1)
    with sim [of _ lp s1] obtain lp1
      where t: "fetch_step dec (twin lp s) = Continue (twin lp1 s1)" by auto
    from Continue have lt: "unread s1 < unread s" by (rule fetch_step_Continue_less)
    from fetch_step_config [of dec s s1] Continue sp
    have sp1: "start_pos s1 = Some S" by simp
    from next_cond [of s1] Continue
    have nc: "(stop_pos s1 = None \<or> stop_pos s1 = Some 0)
       \<or> (header_position dec \<and> sorted (end_positions (pending s1)))" by simp
    from less.hyps [OF lt sp1 nc, of lp1] Continue t show ?thesis
      by (simp add: events_step [of dec s] events_step [of dec "twin lp s"])
  next
    case (Return q s1)
    with sim [of _ lp s1 q] obtain lp1
      where t: "fetch_step dec (twin lp s) =
                  (if is_not_implemented q then Continue (twin lp1 s1)
                   else Return q (twin lp1 s1))" by auto
    from Return have lt: "unread s1 < unread s" by (rule fetch_step_Return_less)
    from fetch_step_config [of dec s s1 q] Return sp
    have sp1: "start_pos s1 = Some S" by simp
    from next_cond [of s1 q] Return
    have nc: "(stop_pos s1 = None \<or> stop_pos s1 = Some 0)
       \<or> (header_position dec \<and> sorted (end_positions (pending s1)))" by simp
    from less.hyps [OF lt sp1 nc, of lp1] Return t show ?thesis
      by (simp add: events_step [of dec s] events_step [of dec "twin lp s"])
  qed
qed

lemma event_class_of_type_not_implemented:
  "event_class_of_type t = NotImplementedEvent \<Longrightarrow> t \<noteq> ROTATE_EVENT \<and> t \<noteq> TABLE_MAP_EVENT"
  by (auto simp: event_class_of_type_def ROTATE_EVENT_def TABLE_MAP_EVENT_def)

lemma sample_decoder_filter: "packet_level_filter sample_decoder"
proof -
  have a: "sample_decoder pkt tm (A - {NotImplementedEvent}) =
        (case sample_decoder pkt tm A of
           Inl msg \<Rightarrow> Inl msg
         | Inr be \<Rightarrow> Inr (strip_not_implemented be))" for pkt tm A
  proof (cases "length pkt < 20")
    case True
    then show ?thesis by (simp add: sample_decoder_def)
  next
    case False
    show ?thesis
    proof (cases "event_class_of_type (le_uint (take 1 (drop 5 pkt))) = NotImplementedEvent")
      case True
      with False show ?thesis
        by (simp add: sample_decoder_def strip_not_implemented_def is_not_implemented_def)
    next
      case ni: False
      with False show ?thesis
        by (simp add: sample_decoder_def strip_not_implemented_def is_not_implemented_def)
    qed
  qed
  have b: "pk_event_type be \<noteq> ROTATE_EVENT \<and> pk_event_type be \<noteq> TABLE_MAP_EVENT"
    if "sample_decoder pkt tm A = Inr be" and "is_not_implemented be" for pkt tm A be
  proof -
    from that(1) have l: "\<not> length pkt < 20"
      by (auto simp: sample_decoder_def split: if_splits)
    with that(1) have ty: "pk_event_type be = le_uint (take 1 (drop 5 pkt))"
      by (auto simp: sample_decoder_def)
    from that l have "event_class_of_type (le_uint (take 1 (drop 5 pkt))) = NotImplementedEvent"
      by (auto simp: sample_decoder_def is_not_implemented_def split: if_splits)
    with ty show ?thesis using event_class_of_type_not_implemented by simp
  qed
  from a b show ?thesis unfolding packet_level_filter_def by blast
qed

lemma sample_decoder_position: "header_position sample_decoder"
  unfolding header_position_def
  by (auto simp: sample_decoder_def split: if_splits)

text \<open>
  C9 (amended).  The allowed set computed with \<^verbatim>\<open>filter_non_implemented_events\<close> true
  is the set computed with it false minus \<open>NotImplementedEvent\<close> (and the constructor
  raises for the one iff for the other).  For a decoder that filters at packet level, and
  either a reader without a stop position (\<^verbatim>\<open>None\<close> or 0) or a file whose frames
  declare end positions that never decrease (with a decoder that reports the header's
  position), the events emitted with the flag true are those emitted with the flag false
  with the events of class \<open>NotImplementedEvent\<close> deleted, hence a subsequence of them.
\<close>

theorem filter_non_implemented_subsequence:
  "allowed_event_list only ign True =
     (case allowed_event_list only ign False of
        Inl err \<Rightarrow> Inl err
      | Inr A \<Rightarrow> Inr (A - {NotImplementedEvent}))
   \<and> (packet_level_filter dec
       \<and> ((arg_stop_pos a = None \<or> arg_stop_pos a = Some 0)
            \<or> (header_position dec \<and> sorted (end_positions (drop 4 (arg_file a)))))
       \<and> BinLogFileReader_init (a\<lparr>arg_filter_non_implemented_events := False\<rparr>) = Inr sf
      \<longrightarrow> (\<exists>st. BinLogFileReader_init (a\<lparr>arg_filter_non_implemented_events := True\<rparr>)
                   = Inr st
               \<and> allowed_events st = allowed_events sf - {NotImplementedEvent}
               \<and> fst (events dec st)
                   = filter (\<lambda>p. \<not> is_not_implemented p) (fst (events dec sf))
               \<and> subseq (fst (events dec st)) (fst (events dec sf))))"
proof (intro conjI impI)
  show "allowed_event_list only ign True =
     (case allowed_event_list only ign False of
        Inl err \<Rightarrow> Inl err
      | Inr A \<Rightarrow> Inr (A - {NotImplementedEvent}))"
    by (rule allowed_event_list_flag)
next
  assume h: "packet_level_filter dec
       \<and> ((arg_stop_pos a = None \<or> arg_stop_pos a = Some 0)
            \<or> (header_position dec \<and> sorted (end_positions (drop 4 (arg_file a)))))
       \<and> BinLogFileReader_init (a\<lparr>arg_filter_non_implemented_events := False\<rparr>) = Inr sf"
  then have i: "BinLogFileReader_init (a\<lparr>arg_filter_non_implemented_events := True\<rparr>)
                  = Inr (twin (log_pos sf) sf)"
    by (simp add: init_flag)
  from h have f: "stop_pos sf = arg_stop_pos a" "pending sf = drop 4 (arg_file a)"
    by (auto simp: BinLogFileReader_init_def pending_def split: sum.splits)
  with h have ep: "(stop_pos sf = None \<or> stop_pos sf = Some 0)
       \<or> (header_position dec \<and> sorted (end_positions (pending sf)))"
    by auto
  have e: "fst (events dec (twin (log_pos sf) sf))
             = filter (\<lambda>p. \<not> is_not_implemented p) (fst (events dec sf))"
  proof (cases "start_pos sf")
    case None
    then have "start_pos (twin (log_pos sf) sf) = None" by (simp add: twin_fields)
    with None show ?thesis by (simp add: events_start_None)
  next
    case (Some S)
    from h have "packet_level_filter dec" by simp
    from events_twin [OF this Some ep] show ?thesis .
  qed
  have "subseq (fst (events dec (twin (log_pos sf) sf))) (fst (events dec sf))"
    unfolding e by simp
  with i e show "\<exists>st. BinLogFileReader_init (a\<lparr>arg_filter_non_implemented_events := True\<rparr>)
                   = Inr st
               \<and> allowed_events st = allowed_events sf - {NotImplementedEvent}
               \<and> fst (events dec st)
                   = filter (\<lambda>p. \<not> is_not_implemented p) (fst (events dec sf))
               \<and> subseq (fst (events dec st)) (fst (events dec sf))"
    by (simp add: twin_fields)
qed

text \<open>
  An instance with a stop position: end positions 50, 200, 300 and \<open>stop_pos = 100\<close>.
  With the flag false the unknown event at 200 ends the stream; with the flag true it is
  skipped and the query event at 300 ends it; both streams are the query event at 50.
\<close>

theorem filter_non_implemented_subsequence_witness:
  "packet_level_filter sample_decoder
   \<and> header_position sample_decoder
   \<and> sorted (end_positions (drop 4 stop_at_unknown_file))
   \<and> end_positions (drop 4 stop_at_unknown_file) = [50, 200, 300]
   \<and> (BinLogFileReader_init ((default_args stop_at_unknown_file)
          \<lparr>arg_log_pos := Some 4, arg_stop_pos := Some 100,
            arg_filter_non_implemented_events := False\<rparr>)
        :: error + unit reader)
      = Inr (sample_reader ((default_args stop_at_unknown_file)
          \<lparr>arg_log_pos := Some 4, arg_stop_pos := Some 100,
            arg_filter_non_implemented_events := False\<rparr>))
   \<and> fst (events sample_decoder
         (sample_reader ((default_args stop_at_unknown_file)
            \<lparr>arg_log_pos := Some 4, arg_stop_pos := Some 100,
              arg_filter_non_implemented_events := False\<rparr>)))
     = [\<lparr>pk_event = Some (Plain_ev QueryEvent), pk_log_pos = 50,
          pk_event_type = 2, pk_timestamp = 6\<rparr>]
   \<and> fst (events sample_decoder
         (sample_reader ((default_args stop_at_unknown_file)
            \<lparr>arg_log_pos := Some 4, arg_stop_pos := Some 100,
              arg_filter_non_implemented_events := True\<rparr>)))
     = [\<lparr>pk_event = Some (Plain_ev QueryEvent), pk_log_pos = 50,
          pk_event_type = 2, pk_timestamp = 6\<rparr>]
   \<and> fst (events sample_decoder
         (sample_reader ((default_args unknown_then_query_file)
            \<lparr>arg_log_pos := Some 4, arg_filter_non_implemented_events := False\<rparr>)))
     = [\<lparr>pk_event = Some (Plain_ev NotImplementedEvent), pk_log_pos = 200,
          pk_event_type = 99, pk_timestamp = 7\<rparr>,
        \<lparr>pk_event = Some (Plain_ev QueryEvent), pk_log_pos = 50,
          pk_event_type = 2, pk_timestamp = 8\<rparr>]
   \<and> fst (events sample_decoder
         (sample_reader ((default_args unknown_then_query_file)
            \<lparr>arg_log_pos := Some 4, arg_filter_non_implemented_events := True\<rparr>)))
     = [\<lparr>pk_event = Some (Plain_ev QueryEvent), pk_log_pos = 50,
          pk_event_type = 2, pk_timestamp = 8\<rparr>]"
proof -
  have ep: "end_positions (drop 4 stop_at_unknown_file) = [50, 200, 300]"
    by (simp add: stop_at_unknown_file_def end_positions.simps file_read_def
          unpack_header_def)
  note ep' = ep [unfolded stop_at_unknown_file_def, simplified]
  show ?thesis
    using filter_non_implemented_subsequence
          [where dec = sample_decoder
             and a = "(default_args stop_at_unknown_file)
                        \<lparr>arg_log_pos := Some 4, arg_stop_pos := Some 100\<rparr>"
             and sf = "sample_reader ((default_args stop_at_unknown_file)
                \<lparr>arg_log_pos := Some 4, arg_stop_pos := Some 100,
                  arg_filter_non_implemented_events := False\<rparr>)"]
          filter_non_implemented_subsequence
          [where dec = sample_decoder
             and a = "(default_args unknown_then_query_file)\<lparr>arg_log_pos := Some 4\<rparr>"
             and sf = "sample_reader ((default_args unknown_then_query_file)
                \<lparr>arg_log_pos := Some 4, arg_filter_non_implemented_events := False\<rparr>)"]
    by (simp add: ep' run_defs unknown_then_query_file_def stop_at_unknown_file_def
          fetch_loop.simps events.simps sample_decoder_filter sample_decoder_position)
qed

text \<open>
  The claim as stated fails with a stop position: with the flag false the unknown event
  at position 200 is decoded and ends the stream at \<open>stop_pos = 100\<close>; with the flag
  true it is skipped before the stop test and the query event at position 50 is emitted.
\<close>

theorem filter_changes_stop_point:
  "fst (events sample_decoder
         (sample_reader ((default_args unknown_then_query_file)
            \<lparr>arg_log_pos := Some 4, arg_stop_pos := Some 100,
              arg_filter_non_implemented_events := True\<rparr>)))
     = [\<lparr>pk_event = Some (Plain_ev QueryEvent), pk_log_pos = 50,
          pk_event_type = 2, pk_timestamp = 8\<rparr>]
   \<and> fst (events sample_decoder
         (sample_reader ((default_args unknown_then_query_file)
            \<lparr>arg_log_pos := Some 4, arg_stop_pos := Some 100,
              arg_filter_non_implemented_events := False\<rparr>)))
     = []
   \<and> \<not> subseq
         (fst (events sample_decoder
            (sample_reader ((default_args unknown_then_query_file)
               \<lparr>arg_log_pos := Some 4, arg_stop_pos := Some 100,
                 arg_filter_non_implemented_events := True\<rparr>))))
         (fst (events sample_decoder
            (sample_reader ((default_args unknown_then_query_file)
               \<lparr>arg_log_pos := Some 4, arg_stop_pos := Some 100,
                 arg_filter_non_implemented_events := False\<rparr>))))"
  by (simp add: run_defs unknown_then_query_file_def fetch_loop.simps events.simps)

end
